theory Spec2Isabelle
  imports Main "HOL-Library.AList" "HOL-Library.Sublist"
begin

section \<open>Python values shared by both solver interfaces\<close>

text \<open>
  Exceptions of the Python code are values. A call returns its result (or the exception it
  raised) together with the session state at that moment: a Python exception does not undo
  the assignments made before it.
\<close>

datatype py_error = AssertionError | NotImplementedError | AttributeError | ValueError | Z3Exception

text \<open>
  The variable classes of \<^verbatim>\<open>cpmpy.expressions.variables\<close>: \<^verbatim>\<open>_BoolVarImpl\<close>,
  \<^verbatim>\<open>_IntVarImpl\<close> with its inclusive bounds, \<^verbatim>\<open>NegBoolView\<close> (which only stores the
  Boolean variable \<^verbatim>\<open>_bv\<close> it negates, here by that variable's name) and any other
  \<^verbatim>\<open>_NumVarImpl\<close>. \<^verbatim>\<open>str(cpm_var)\<close> of a variable is its name; \<open>var_name\<close> gives
  it, and for a negated view the name of the variable it negates.
\<close>

datatype cpm_var =
    BoolVarImpl string
  | IntVarImpl string int int
  | NegBoolView string
  | NumVarImpl string

fun var_name :: "cpm_var \<Rightarrow> string" where
  "var_name (BoolVarImpl n) = n"
| "var_name (IntVarImpl n lb ub) = n"
| "var_name (NegBoolView n) = n"
| "var_name (NumVarImpl n) = n"

text \<open>
  Flat expressions: an argument is a number or a variable; an expression is an argument, a
  \<^verbatim>\<open>sum\<close>, a \<^verbatim>\<open>wsum\<close> (coefficients and arguments), a \<^verbatim>\<open>sub\<close>, or an operator
  of another name. The constants, weights and bounds of these expressions are Python
  integers, which are unbounded.
\<close>

datatype atom = Num int | Var cpm_var

datatype expr =
    Atom atom
  | Sum "atom list"
  | WSum "int list" "atom list"
  | Sub "atom list"
  | OtherExpr string

datatype cmp_op = LE | GE | EQ | LT | GT | NE

text \<open>
  The constraints \<^verbatim>\<open>_post_constraint\<close> tells apart by itself: a \<^verbatim>\<open>Comparison\<close> and the
  operator \<^verbatim>\<open>->\<close> with its two arguments. Every other constraint is handed to
  \<^verbatim>\<open>decompose()\<close> and the transformation passes, which are not part of the sources.
\<close>

datatype cons =
    Comparison cmp_op expr expr
  | Implication expr cons

datatype pyval = PyInt int | PyBool bool | PyNone

text \<open>
  \<^verbatim>\<open>ExitStatus\<close> of the solver interface; a new \<^verbatim>\<open>SolverStatus\<close> starts as
  \<^verbatim>\<open>NOT_RUN\<close>.
\<close>

datatype exit_status = NOT_RUN | OPTIMAL | FEASIBLE | UNSATISFIABLE | ERROR | UNKNOWN

subsection \<open>\<^verbatim>\<open>str\<close> of an integer, and reading it back\<close>

definition digit_char :: "nat \<Rightarrow> char" where
  "digit_char d = char_of (48 + d)"

fun nat_digits :: "nat \<Rightarrow> string" where
  "nat_digits n = (if n < 10 then [digit_char n] else nat_digits (n div 10) @ [digit_char (n mod 10)])"

declare nat_digits.simps [simp del]

definition py_str :: "int \<Rightarrow> string" where
  "py_str i = (if i < 0 then CHR ''-'' # nat_digits (nat (- i)) else nat_digits (nat i))"

definition digit_val :: "char \<Rightarrow> int" where
  "digit_val c = int (of_char c) - 48"

definition read_digits :: "string \<Rightarrow> int" where
  "read_digits cs = foldl (\<lambda>a c. 10 * a + digit_val c) 0 cs"

definition read_int :: "string \<Rightarrow> int" where
  "read_int cs = (case cs of [] \<Rightarrow> 0 | c # r \<Rightarrow> if c = CHR ''-'' then - read_digits r else read_digits cs)"

text \<open>A number handed to Exact: natively, or as the string \<^verbatim>\<open>str(x)\<close>.\<close>

datatype xnum = XInt int | XStr string

fun xval :: "xnum \<Rightarrow> int" where
  "xval (XInt i) = i"
| "xval (XStr cs) = read_int cs"

definition str_num :: "int \<Rightarrow> xnum" where
  "str_num x = XStr (py_str x)"

fun is_str :: "xnum \<Rightarrow> bool" where
  "is_str (XInt i) = False"
| "is_str (XStr cs) = True"

text \<open>
  The numbers the interface is handed are Python integers or numpy scalars: the weights of a
  sum taken from a numpy array are \<^verbatim>\<open>np.int64\<close>, and \<^verbatim>\<open>fix\<close> is written for them. A
  numpy scalar carries a 64-bit value.
\<close>

datatype number = PyNum int | NpInt64 int

fun num_val :: "number \<Rightarrow> int" where
  "num_val (PyNum i) = i"
| "num_val (NpInt64 i) = i"

text \<open>
  \<^verbatim>\<open>abs\<close> keeps the kind of its argument; on \<^verbatim>\<open>np.int64\<close> the most negative value has no
  positive counterpart and \<^verbatim>\<open>abs\<close> wraps around to it.
\<close>

fun num_abs :: "number \<Rightarrow> number" where
  "num_abs (PyNum i) = PyNum \<bar>i\<bar>"
| "num_abs (NpInt64 i) = NpInt64 (if i = - (2 ^ 63) then i else \<bar>i\<bar>)"

text \<open>Integers of either kind are compared with each other by value.\<close>

definition num_gt :: "number \<Rightarrow> number \<Rightarrow> bool" where
  "num_gt a b = (num_val b < num_val a)"

text \<open>
  \<^verbatim>\<open>max\<close> of a list raises \<^verbatim>\<open>ValueError\<close> on the empty list; otherwise it returns the first
  of the greatest items, which is a Python integer or a numpy scalar as that item is.
\<close>

fun py_max :: "number list \<Rightarrow> py_error + number" where
  "py_max [] = Inl ValueError"
| "py_max (x # xs) = Inr (foldl (\<lambda>m y. if num_gt y m then y else m) x xs)"

text \<open>The Python integers of the model as numbers.\<close>

definition py_nums :: "int list \<Rightarrow> number list" where
  "py_nums xs = map PyNum xs"

section \<open>The interface to Exact (\<^verbatim>\<open>exact.py\<close>)\<close>

text \<open>
  The calls made on \<^verbatim>\<open>xct_solver\<close>, in the order made. The solver itself is outside the
  sources; what it has been told is the list of these calls.
\<close>

datatype xct_call =
    AddVariable string xnum xnum
  | AddConstraint "xnum list" "string list" bool xnum bool xnum
  | AddReification string "xnum list" "string list" xnum
  | AddRightReification string "xnum list" "string list" xnum
  | AddLeftReification string "xnum list" "string list" xnum
  | Init "int list" "string list"
  | SetOption string string
  | RunFull
  | RunOnce
  | InvalidateLastSol

text \<open>
  The session: the calls made so far, \<^verbatim>\<open>_varmap\<close> (a dict, in insertion order),
  \<^verbatim>\<open>user_vars\<close> (a set; kept as a duplicate-free list), the two objective flags,
  \<^verbatim>\<open>objective_value_\<close>, the \<^verbatim>\<open>_value\<close> attribute of the variables, and the exit
  status of \<^verbatim>\<open>cpm_status\<close>.
\<close>

record xstate =
  xct_calls :: "xct_call list"
  varmap :: "(cpm_var \<times> string) list"
  user_vars :: "cpm_var list"
  has_objective :: bool
  objective_minimize :: bool
  objective_value :: "int option"
  var_value :: "(cpm_var \<times> pyval) list"
  exitstatus :: exit_status

definition xstate_init :: xstate where
  "xstate_init = \<lparr>xct_calls = [], varmap = [], user_vars = [], has_objective = False,
     objective_minimize = True, objective_value = None, var_value = [], exitstatus = NOT_RUN\<rparr>"

definition xct :: "xct_call \<Rightarrow> xstate \<Rightarrow> xstate" where
  "xct c s = s\<lparr>xct_calls := xct_calls s @ [c]\<rparr>"

text \<open>The threshold \<^verbatim>\<open>> 1e18\<close>: the float is exactly \<open>10 ^ 18\<close>, and Python compares a
  Python integer with a float exactly.\<close>

definition over_1e18 :: "int \<Rightarrow> bool" where
  "over_1e18 m = (m > 10 ^ 18)"

text \<open>
  A numpy scalar is compared with a float in \<^verbatim>\<open>float64\<close>: the integer is first rounded to the
  nearest number with a 53-bit mantissa, ties to the even mantissa. \<open>drop_bits a\<close> is the
  number of low bits that do not fit, \<open>round_half_even a d\<close> the quotient \<open>a / d\<close> so rounded.
\<close>

fun drop_bits :: "nat \<Rightarrow> nat" where
  "drop_bits a = (if a < 2 ^ 53 then 0 else Suc (drop_bits (a div 2)))"

declare drop_bits.simps [simp del]

definition round_half_even :: "int \<Rightarrow> int \<Rightarrow> int" where
  "round_half_even a d =
     (let q = a div d; r = a mod d in
      if 2 * r < d then q else if d < 2 * r then q + 1 else if even q then q else q + 1)"

definition float64_of_int :: "int \<Rightarrow> int" where
  "float64_of_int i =
     (let d = 2 ^ drop_bits (nat \<bar>i\<bar>) in sgn i * (round_half_even \<bar>i\<bar> d * d))"

text \<open>\<^verbatim>\<open>maximum > 1e18\<close>, by the kind of \<^verbatim>\<open>maximum\<close>.\<close>

fun gt_1e18 :: "number \<Rightarrow> bool" where
  "gt_1e18 (PyNum i) = over_1e18 i"
| "gt_1e18 (NpInt64 i) = over_1e18 (float64_of_int i)"

subsection \<open>\<^verbatim>\<open>solver_var\<close>\<close>

text \<open>
  The part of \<^verbatim>\<open>solver_var\<close> after the test for a negated view: the cache lookup, then the
  declaration by kind. The handle is the string \<^verbatim>\<open>revar\<close>.
\<close>

definition solver_var_plain :: "xstate \<Rightarrow> cpm_var \<Rightarrow> (py_error + string) \<times> xstate" where
  "solver_var_plain s v =
     (case map_of (varmap s) v of
        Some h \<Rightarrow> (Inr h, s)
      | None \<Rightarrow>
         (let revar = var_name v in
          case v of
            BoolVarImpl n \<Rightarrow>
              (Inr revar, (xct (AddVariable revar (XInt 0) (XInt 1)) s)\<lparr>varmap := varmap s @ [(v, revar)]\<rparr>)
          | IntVarImpl n lb ub \<Rightarrow>
              (if over_1e18 (max \<bar>lb\<bar> \<bar>ub\<bar>)
               then (Inr revar, (xct (AddVariable revar (str_num lb) (str_num ub)) s)
                                  \<lparr>varmap := varmap s @ [(v, revar)]\<rparr>)
               else (Inr revar, (xct (AddVariable revar (XInt lb) (XInt ub)) s)
                                  \<lparr>varmap := varmap s @ [(v, revar)]\<rparr>))
          | _ \<Rightarrow> (Inl NotImplementedError, s)))"

text \<open>
  \<^verbatim>\<open>solver_var\<close>: a number fails the assertion; for a negated view the handle of the
  inner variable is computed and \<^verbatim>\<open>.Not()\<close> is called on it. The handle is a Python
  \<^verbatim>\<open>str\<close>, which has no attribute \<^verbatim>\<open>Not\<close>: the call raises \<^verbatim>\<open>AttributeError\<close>, after
  the inner variable has been declared.
\<close>

fun solver_var :: "xstate \<Rightarrow> atom \<Rightarrow> (py_error + string) \<times> xstate" where
  "solver_var s (Num n) = (Inl AssertionError, s)"
| "solver_var s (Var (NegBoolView b)) =
     (case solver_var_plain s (BoolVarImpl b) of
        (Inl e, s') \<Rightarrow> (Inl e, s')
      | (Inr h, s') \<Rightarrow> (Inl AttributeError, s'))"
| "solver_var s (Var v) = solver_var_plain s v"

subsection \<open>\<^verbatim>\<open>_make_numexpr\<close>\<close>

text \<open>The loop over the arguments of a \<^verbatim>\<open>sum\<close>.\<close>

fun sum_loop :: "xstate \<Rightarrow> atom list \<Rightarrow> int list \<Rightarrow> string list \<Rightarrow> int
    \<Rightarrow> (py_error + int list \<times> string list \<times> int) \<times> xstate" where
  "sum_loop s [] xcoefs xvars xrhs = (Inr (xcoefs, xvars, xrhs), s)"
| "sum_loop s (Num n # xs) xcoefs xvars xrhs = sum_loop s xs xcoefs xvars (xrhs - n)"
| "sum_loop s (Var v # xs) xcoefs xvars xrhs =
     (case solver_var s (Var v) of
        (Inl e, s') \<Rightarrow> (Inl e, s')
      | (Inr h, s') \<Rightarrow> sum_loop s' xs (xcoefs @ [1]) (xvars @ [h]) xrhs)"

text \<open>The loop over \<^verbatim>\<open>zip(*lhs.args)\<close> of a \<^verbatim>\<open>wsum\<close>.\<close>

fun wsum_loop :: "xstate \<Rightarrow> (int \<times> atom) list \<Rightarrow> int list \<Rightarrow> string list \<Rightarrow> int
    \<Rightarrow> (py_error + int list \<times> string list \<times> int) \<times> xstate" where
  "wsum_loop s [] xcoefs xvars xrhs = (Inr (xcoefs, xvars, xrhs), s)"
| "wsum_loop s ((c, Num n) # xs) xcoefs xvars xrhs = wsum_loop s xs xcoefs xvars (xrhs - c * n)"
| "wsum_loop s ((c, Var v) # xs) xcoefs xvars xrhs =
     (case solver_var s (Var v) of
        (Inl e, s') \<Rightarrow> (Inl e, s')
      | (Inr h, s') \<Rightarrow> wsum_loop s' xs (xcoefs @ [c]) (xvars @ [h]) xrhs)"

text \<open>The first half of \<^verbatim>\<open>_make_numexpr\<close>: the right-hand side.\<close>

fun numexpr_rhs :: "xstate \<Rightarrow> expr \<Rightarrow> (py_error + int list \<times> string list \<times> int) \<times> xstate" where
  "numexpr_rhs s (Atom (Num n)) = (Inr ([], [], 0 + n), s)"
| "numexpr_rhs s (Atom (Var v)) =
     (case solver_var s (Var v) of
        (Inl e, s') \<Rightarrow> (Inl e, s')
      | (Inr h, s') \<Rightarrow> (Inr ([] @ [-1], [] @ [h], 0), s'))"
| "numexpr_rhs s other = (Inl NotImplementedError, s)"

text \<open>The second half: the left-hand side, by node kind.\<close>

fun numexpr_lhs :: "xstate \<Rightarrow> expr \<Rightarrow> int list \<Rightarrow> string list \<Rightarrow> int
    \<Rightarrow> (py_error + int list \<times> string list \<times> int) \<times> xstate" where
  "numexpr_lhs s (Atom (Num n)) xcoefs xvars xrhs = (Inr (xcoefs, xvars, xrhs - n), s)"
| "numexpr_lhs s (Atom (Var v)) xcoefs xvars xrhs =
     (case solver_var s (Var v) of
        (Inl e, s') \<Rightarrow> (Inl e, s')
      | (Inr h, s') \<Rightarrow> (Inr (xcoefs @ [1], xvars @ [h], xrhs), s'))"
| "numexpr_lhs s (Sum args) xcoefs xvars xrhs = sum_loop s args xcoefs xvars xrhs"
| "numexpr_lhs s (WSum cs args) xcoefs xvars xrhs = wsum_loop s (zip cs args) xcoefs xvars xrhs"
| "numexpr_lhs s (Sub args) xcoefs xvars xrhs =
     (case args of
        [a, b] \<Rightarrow>
          (case solver_var s a of
             (Inl e, s') \<Rightarrow> (Inl e, s')
           | (Inr ha, s') \<Rightarrow>
               (case solver_var s' b of
                  (Inl e, s'') \<Rightarrow> (Inl e, s'')
                | (Inr hb, s'') \<Rightarrow> (Inr (xcoefs @ [1, -1], xvars @ [ha, hb], xrhs), s'')))
      | _ \<Rightarrow> (Inl AssertionError, s))"
| "numexpr_lhs s (OtherExpr nm) xcoefs xvars xrhs = (Inl NotImplementedError, s)"

definition make_numexpr :: "xstate \<Rightarrow> expr \<Rightarrow> expr \<Rightarrow> (py_error + int list \<times> string list \<times> int) \<times> xstate" where
  "make_numexpr s lhs rhs =
     (case numexpr_rhs s rhs of
        (Inl e, s') \<Rightarrow> (Inl e, s')
      | (Inr (xcoefs, xvars, xrhs), s') \<Rightarrow> numexpr_lhs s' lhs xcoefs xvars xrhs)"

subsection \<open>The four posting helpers\<close>

text \<open>
  \<^verbatim>\<open>fix\<close> turns a numpy scalar into the Python number it holds (\<^verbatim>\<open>o.item()\<close>) and leaves a
  Python number as it is; \<^verbatim>\<open>str\<close> of a number of either kind is its decimal numeral.
\<close>

fun fix_item :: "number \<Rightarrow> xnum" where
  "fix_item (PyNum i) = XInt i"
| "fix_item (NpInt64 i) = XInt i"

definition num_str :: "number \<Rightarrow> xnum" where
  "num_str x = str_num (num_val x)"

definition add_xct_constr :: "xstate \<Rightarrow> number list \<Rightarrow> string list \<Rightarrow> bool \<Rightarrow> number \<Rightarrow> bool \<Rightarrow> number
    \<Rightarrow> (py_error + unit) \<times> xstate" where
  "add_xct_constr s xct_coefs xct_vars uselb lb useub ub =
     (case py_max (map num_abs xct_coefs) of
        Inl e \<Rightarrow> (Inl e, s)
      | Inr m \<Rightarrow>
         (case py_max [m, num_abs (if uselb then lb else PyNum 0), num_abs (if useub then ub else PyNum 0)] of
            Inl e \<Rightarrow> (Inl e, s)
          | Inr maximum \<Rightarrow>
              (if gt_1e18 maximum
               then (Inr (), xct (AddConstraint (map num_str xct_coefs) xct_vars uselb (num_str lb) useub (num_str ub)) s)
               else (Inr (), xct (AddConstraint (map fix_item xct_coefs) xct_vars uselb (fix_item lb) useub (fix_item ub)) s))))"

definition add_xct_reif :: "xstate \<Rightarrow> string \<Rightarrow> number list \<Rightarrow> string list \<Rightarrow> number
    \<Rightarrow> (py_error + unit) \<times> xstate" where
  "add_xct_reif s head xct_coefs xct_vars lb =
     (case py_max (map num_abs xct_coefs) of
        Inl e \<Rightarrow> (Inl e, s)
      | Inr m \<Rightarrow>
         (case py_max [m, num_abs lb] of
            Inl e \<Rightarrow> (Inl e, s)
          | Inr maximum \<Rightarrow>
              (if gt_1e18 maximum
               then (Inr (), xct (AddReification head (map num_str xct_coefs) xct_vars (num_str lb)) s)
               else (Inr (), xct (AddReification head (map fix_item xct_coefs) xct_vars (fix_item lb)) s))))"

definition add_xct_reif_right :: "xstate \<Rightarrow> string \<Rightarrow> number list \<Rightarrow> string list \<Rightarrow> number
    \<Rightarrow> (py_error + unit) \<times> xstate" where
  "add_xct_reif_right s head xct_coefs xct_vars xct_rhs =
     (case py_max (map num_abs xct_coefs) of
        Inl e \<Rightarrow> (Inl e, s)
      | Inr m \<Rightarrow>
         (case py_max [m, num_abs xct_rhs] of
            Inl e \<Rightarrow> (Inl e, s)
          | Inr maximum \<Rightarrow>
              (if gt_1e18 maximum
               then (Inr (), xct (AddRightReification head (map num_str xct_coefs) xct_vars (num_str xct_rhs)) s)
               else (Inr (), xct (AddRightReification head (map fix_item xct_coefs) xct_vars (fix_item xct_rhs)) s))))"

definition add_xct_reif_left :: "xstate \<Rightarrow> string \<Rightarrow> number list \<Rightarrow> string list \<Rightarrow> number
    \<Rightarrow> (py_error + unit) \<times> xstate" where
  "add_xct_reif_left s head xct_coefs xct_vars xct_rhs =
     (case py_max (map num_abs xct_coefs) of
        Inl e \<Rightarrow> (Inl e, s)
      | Inr m \<Rightarrow>
         (case py_max [m, num_abs xct_rhs] of
            Inl e \<Rightarrow> (Inl e, s)
          | Inr maximum \<Rightarrow>
              (if gt_1e18 maximum
               then (Inr (), xct (AddLeftReification head (map num_str xct_coefs) xct_vars (num_str xct_rhs)) s)
               else (Inr (), xct (AddLeftReification head (map fix_item xct_coefs) xct_vars (fix_item xct_rhs)) s))))"

subsection \<open>\<^verbatim>\<open>_post_constraint\<close>\<close>

text \<open>\<^verbatim>\<open>isinstance(x, _BoolVarImpl)\<close>: a negated view is a \<^verbatim>\<open>_BoolVarImpl\<close> too.\<close>

fun is_BoolVarImpl :: "expr \<Rightarrow> bool" where
  "is_BoolVarImpl (Atom (Var (BoolVarImpl n))) = True"
| "is_BoolVarImpl (Atom (Var (NegBoolView n))) = True"
| "is_BoolVarImpl other = False"

text \<open>
  The assertion on the left side of an indicator's comparison:
  \<^verbatim>\<open>isinstance(lhs, _NumVarImpl) or lhs.name == "sum" or lhs.name == "wsum"\<close>. On a number
  the attribute \<^verbatim>\<open>name\<close> does not exist.
\<close>

fun indicator_lhs_check :: "expr \<Rightarrow> py_error option" where
  "indicator_lhs_check (Atom (Var v)) = None"
| "indicator_lhs_check (Atom (Num n)) = Some AttributeError"
| "indicator_lhs_check (Sum args) = None"
| "indicator_lhs_check (WSum cs args) = None"
| "indicator_lhs_check other = Some AssertionError"

text \<open>The branch on the condition: its handle and \<^verbatim>\<open>bool_val\<close>.\<close>

fun indicator_cond :: "xstate \<Rightarrow> expr \<Rightarrow> (py_error + string \<times> bool) \<times> xstate" where
  "indicator_cond s (Atom (Var (NegBoolView b))) =
     (case solver_var s (Var (BoolVarImpl b)) of
        (Inl e, s') \<Rightarrow> (Inl e, s')
      | (Inr h, s') \<Rightarrow> (Inr (h, False), s'))"
| "indicator_cond s (Atom a) =
     (case solver_var s a of
        (Inl e, s') \<Rightarrow> (Inl e, s')
      | (Inr h, s') \<Rightarrow> (Inr (h, True), s'))"
| "indicator_cond s other = (Inl AssertionError, s)"

text \<open>The branch on the operator of the comparison, with \<^verbatim>\<open>bool_val\<close>.\<close>

definition indicator_emit :: "xstate \<Rightarrow> string \<Rightarrow> bool \<Rightarrow> cmp_op \<Rightarrow> int list \<Rightarrow> string list \<Rightarrow> int
    \<Rightarrow> (py_error + unit) \<times> xstate" where
  "indicator_emit s cond bool_val opr xct_coefs xct_vars xct_rhs =
     (case opr of
        EQ \<Rightarrow>
          (if bool_val then
             (case add_xct_reif_right s cond (py_nums xct_coefs) xct_vars (PyNum xct_rhs) of
                (Inl e, s') \<Rightarrow> (Inl e, s')
              | (Inr u, s') \<Rightarrow> add_xct_reif_right s' cond (py_nums (map uminus xct_coefs)) xct_vars (PyNum (- xct_rhs)))
           else
             (case add_xct_reif_left s cond (py_nums xct_coefs) xct_vars (PyNum (1 + xct_rhs)) of
                (Inl e, s') \<Rightarrow> (Inl e, s')
              | (Inr u, s') \<Rightarrow> add_xct_reif_left s' cond (py_nums (map uminus xct_coefs)) xct_vars (PyNum (1 - xct_rhs))))
      | GE \<Rightarrow>
          (if bool_val then add_xct_reif_right s cond (py_nums xct_coefs) xct_vars (PyNum xct_rhs)
           else add_xct_reif_left s cond (py_nums (map uminus xct_coefs)) xct_vars (PyNum (1 - xct_rhs)))
      | LE \<Rightarrow>
          (if bool_val then add_xct_reif_right s cond (py_nums (map uminus xct_coefs)) xct_vars (PyNum (- xct_rhs))
           else add_xct_reif_left s cond (py_nums xct_coefs) xct_vars (PyNum (1 + xct_rhs)))
      | _ \<Rightarrow> (Inl NotImplementedError, s))"

fun post_constraint :: "xstate \<Rightarrow> cons \<Rightarrow> (py_error + unit) \<times> xstate" where
  "post_constraint s (Comparison opr lhs rhs) =
     (case make_numexpr s lhs rhs of
        (Inl e, s') \<Rightarrow> (Inl e, s')
      | (Inr (xct_coefs, xct_vars, xct_rhs), s') \<Rightarrow>
          (case opr of
             LE \<Rightarrow> add_xct_constr s' (py_nums xct_coefs) xct_vars False (PyNum 0) True (PyNum xct_rhs)
           | GE \<Rightarrow> add_xct_constr s' (py_nums xct_coefs) xct_vars True (PyNum xct_rhs) False (PyNum 0)
           | EQ \<Rightarrow> add_xct_constr s' (py_nums xct_coefs) xct_vars True (PyNum xct_rhs) True (PyNum xct_rhs)
           | _ \<Rightarrow> (Inl NotImplementedError, s')))"
| "post_constraint s (Implication cond sub_expr) =
     (if \<not> is_BoolVarImpl cond then (Inl AssertionError, s)
      else case sub_expr of
        Implication c' e' \<Rightarrow> (Inl AssertionError, s)
      | Comparison opr lhs rhs \<Rightarrow>
          (case indicator_lhs_check lhs of
             Some e \<Rightarrow> (Inl e, s)
           | None \<Rightarrow>
              (case make_numexpr s lhs rhs of
                 (Inl e, s') \<Rightarrow> (Inl e, s')
               | (Inr (xct_coefs, xct_vars, xct_rhs), s') \<Rightarrow>
                   (case indicator_cond s' cond of
                      (Inl e, s'') \<Rightarrow> (Inl e, s'')
                    | (Inr (h, bool_val), s'') \<Rightarrow>
                        indicator_emit s'' h bool_val opr xct_coefs xct_vars xct_rhs))))"

subsection \<open>\<^verbatim>\<open>__add__\<close> and \<^verbatim>\<open>objective\<close>\<close>

text \<open>\<^verbatim>\<open>user_vars.update(...)\<close>: a set; new elements are appended.\<close>

definition set_update :: "'a list \<Rightarrow> 'a list \<Rightarrow> 'a list" where
  "set_update xs ys = foldl (\<lambda>acc y. if y \<in> set acc then acc else acc @ [y]) xs ys"

fun post_all :: "xstate \<Rightarrow> cons list \<Rightarrow> (py_error + unit) \<times> xstate" where
  "post_all s [] = (Inr (), s)"
| "post_all s (con # cons) =
     (case post_constraint s con of
        (Inl e, s') \<Rightarrow> (Inl e, s')
      | (Inr u, s') \<Rightarrow> post_all s' cons)"

text \<open>
  \<^verbatim>\<open>__add__\<close>. The variables of the constraint (\<^verbatim>\<open>get_variables\<close>) and the list the
  six transformation passes turn it into come from modules outside the sources; they are
  the two arguments \<open>vars\<close> and \<open>cpm_cons\<close>.
\<close>

definition add_cons :: "xstate \<Rightarrow> cpm_var list \<Rightarrow> cons list \<Rightarrow> (py_error + unit) \<times> xstate" where
  "add_cons s vars cpm_cons = post_all (s\<lparr>user_vars := set_update (user_vars s) vars\<rparr>) cpm_cons"

text \<open>
  \<^verbatim>\<open>objective\<close>. \<^verbatim>\<open>flatten_objective(expr)\<close> is outside the sources: its result
  \<open>flat_obj\<close>, the variables of \<open>flat_obj\<close>, and what \<^verbatim>\<open>__add__\<close> needs of
  \<^verbatim>\<open>flat_cons\<close> are arguments.
\<close>

definition objective :: "xstate \<Rightarrow> expr \<Rightarrow> cpm_var list \<Rightarrow> cpm_var list \<Rightarrow> cons list \<Rightarrow> bool
    \<Rightarrow> (py_error + unit) \<times> xstate" where
  "objective s flat_obj obj_vars cons_vars flat_cons minimize =
     (if has_objective s then (Inl AssertionError, s)
      else
        (let s1 = s\<lparr>has_objective := True, objective_minimize := minimize\<rparr> in
         case add_cons s1 cons_vars flat_cons of
           (Inl e, s2) \<Rightarrow> (Inl e, s2)
         | (Inr u, s2) \<Rightarrow>
            (let s3 = s2\<lparr>user_vars := set_update (user_vars s2) obj_vars\<rparr> in
             case make_numexpr s3 flat_obj (Atom (Num 0)) of
               (Inl e, s4) \<Rightarrow> (Inl e, s4)
             | (Inr (xct_coefs, xct_vars, xct_rhs), s4) \<Rightarrow>
                 (Inr (), xct (Init (if \<not> objective_minimize s4 then map uminus xct_coefs else xct_coefs) xct_vars) s4))))"

subsection \<open>\<^verbatim>\<open>getSolAndObj\<close>, \<^verbatim>\<open>solve\<close> and \<^verbatim>\<open>solveAll\<close>\<close>

text \<open>
  What the solver answers after a run: the status the run returned, \<^verbatim>\<open>hasSolution()\<close>,
  the value \<^verbatim>\<open>getLastSolutionFor\<close> gives for a handle, and \<^verbatim>\<open>getObjectiveBounds()\<close>.
\<close>

record xct_reply =
  run_status :: int
  has_solution :: bool
  last_solution :: "string \<Rightarrow> int"
  objective_bounds :: "int \<times> int"

fun solver_vars :: "xstate \<Rightarrow> cpm_var list \<Rightarrow> (py_error + string list) \<times> xstate" where
  "solver_vars s [] = (Inr [], s)"
| "solver_vars s (v # vs) =
     (case solver_var s (Var v) of
        (Inl e, s') \<Rightarrow> (Inl e, s')
      | (Inr h, s') \<Rightarrow>
          (case solver_vars s' vs of
             (Inl e, s'') \<Rightarrow> (Inl e, s'')
           | (Inr hs, s'') \<Rightarrow> (Inr (h # hs), s'')))"

text \<open>The loop that stores the values; a Boolean variable gets \<^verbatim>\<open>bool(value)\<close>.\<close>

fun store_value :: "cpm_var \<Rightarrow> int \<Rightarrow> pyval" where
  "store_value (BoolVarImpl n) x = PyBool (x \<noteq> 0)"
| "store_value (NegBoolView n) x = PyBool (x \<noteq> 0)"
| "store_value v x = PyInt x"

fun fill_values :: "(cpm_var \<times> pyval) list \<Rightarrow> (cpm_var \<times> int) list \<Rightarrow> (cpm_var \<times> pyval) list" where
  "fill_values vals [] = vals"
| "fill_values vals ((v, x) # rest) = fill_values (AList.update v (store_value v x) vals) rest"

definition getSolAndObj :: "xstate \<Rightarrow> xct_reply \<Rightarrow> (py_error + bool) \<times> xstate" where
  "getSolAndObj s r =
     (if \<not> has_solution r then (Inr False, s\<lparr>objective_value := None\<rparr>)
      else
        (case solver_vars s (user_vars s) of
           (Inl e, s') \<Rightarrow> (Inl e, s')
         | (Inr hs, s') \<Rightarrow>
            (let exact_vals = map (last_solution r) hs;
                 s2 = s'\<lparr>var_value := fill_values (var_value s') (zip (user_vars s') exact_vals)\<rparr>;
                 s3 = s2\<lparr>objective_value := Some (snd (objective_bounds r))\<rparr>;
                 s4 = (if \<not> objective_minimize s3
                       then s3\<lparr>objective_value := map_option uminus (objective_value s3)\<rparr> else s3)
             in (Inr True, s4))))"

text \<open>
  \<^verbatim>\<open>solve\<close>. The time limit and the keyword arguments are given by their \<^verbatim>\<open>str\<close>; the
  printing of the keyword arguments is left out. \<open>r\<close> is the solver's answer to
  \<^verbatim>\<open>runFull()\<close>.
\<close>

definition set_options :: "xstate \<Rightarrow> (string \<times> string) list \<Rightarrow> xstate" where
  "set_options s kwargs = foldl (\<lambda>t (kw, val). xct (SetOption kw val) t) s kwargs"

definition init_if_needed :: "xstate \<Rightarrow> xstate" where
  "init_if_needed s = (if \<not> has_objective s then xct (Init [] []) (s\<lparr>has_objective := True\<rparr>) else s)"

definition set_timeout :: "xstate \<Rightarrow> string option \<Rightarrow> xstate" where
  "set_timeout s time_limit = (case time_limit of None \<Rightarrow> s | Some t \<Rightarrow> xct (SetOption ''timeout'' t) s)"

definition solve :: "xstate \<Rightarrow> string option \<Rightarrow> atom list option \<Rightarrow> (string \<times> string) list \<Rightarrow> xct_reply
    \<Rightarrow> (py_error + bool) \<times> xstate" where
  "solve s time_limit assumptions kwargs r =
     (let s1 = init_if_needed s;
          s2 = set_timeout s1 time_limit;
          s3 = set_options s2 kwargs
      in if assumptions \<noteq> None then (Inl AssertionError, s3)
         else
           (let s4 = xct RunFull s3;
                s5 = s4\<lparr>exitstatus := NOT_RUN\<rparr>
            in if run_status r = 0 then
                 (if has_solution r then getSolAndObj (s5\<lparr>exitstatus := OPTIMAL\<rparr>) r
                  else getSolAndObj (s5\<lparr>exitstatus := UNSATISFIABLE\<rparr>) r)
               else if run_status r = 2 then getSolAndObj (s5\<lparr>exitstatus := UNKNOWN\<rparr>) r
               else (Inl NotImplementedError, s5)))"

text \<open>
  \<^verbatim>\<open>solveAll\<close>. The solver's answers to the successive \<^verbatim>\<open>runOnce()\<close> calls are a list;
  when the list ends before the loops do, the call has not returned (\<open>None\<close>).
\<close>

fun run_once_loop :: "xstate \<Rightarrow> xct_reply list \<Rightarrow> (xct_reply \<times> xct_reply list \<times> xstate) option" where
  "run_once_loop s [] = None"
| "run_once_loop s (r # rs) =
     (if run_status r = 3 then run_once_loop (xct RunOnce s) rs
      else Some (r, rs, xct RunOnce s))"

lemma run_once_loop_shorter:
  "run_once_loop s rs = Some (r, rest, s') \<Longrightarrow> length rest < length rs"
  by (induction rs arbitrary: s) (fastforce split: if_splits)+

function solveAll_loop :: "int option \<Rightarrow> int \<Rightarrow> xstate \<Rightarrow> xct_reply list \<Rightarrow> ((py_error + int) \<times> xstate) option" where
  "solveAll_loop solution_limit solsfound s rs =
     (if solution_limit = None \<or> solsfound < the solution_limit then
        (case run_once_loop s rs of
           None \<Rightarrow> None
         | Some (r, rest, s') \<Rightarrow>
             (if \<not> (run_status r = 0 \<or> run_status r = 1) then Some (Inl AssertionError, s')
              else if run_status r = 0 then Some (Inr solsfound, s')
              else
                (case getSolAndObj s' r of
                   (Inl e, s'') \<Rightarrow> Some (Inl e, s'')
                 | (Inr b, s'') \<Rightarrow> solveAll_loop solution_limit (solsfound + 1) (xct InvalidateLastSol s'') rest)))
      else Some (Inr solsfound, s))"
  by pat_completeness auto
termination
  by (relation "measure (\<lambda>(l, n, s, rs). length rs)") (auto dest: run_once_loop_shorter)

declare solveAll_loop.simps [simp del]

definition solveAll :: "xstate \<Rightarrow> string option \<Rightarrow> int option \<Rightarrow> (string \<times> string) list \<Rightarrow> xct_reply list
    \<Rightarrow> ((py_error + int) \<times> xstate) option" where
  "solveAll s time_limit solution_limit kwargs rs =
     (let s1 = init_if_needed s;
          s2 = xct (SetOption ''opt-boundupper'' (py_str 0)) s1;
          s3 = set_timeout s2 time_limit;
          s4 = set_options s3 kwargs
      in solveAll_loop solution_limit 0 s4 rs)"

section \<open>Notions used to state the properties\<close>

text \<open>
  A call changes only what the solver has been told and \<^verbatim>\<open>_varmap\<close>: the calls made
  before stay a prefix of the calls, and every other field is as before.
\<close>

definition solver_step :: "xstate \<Rightarrow> xstate \<Rightarrow> bool" where
  "solver_step s s' = (prefix (xct_calls s) (xct_calls s') \<and> s' = s\<lparr>xct_calls := xct_calls s', varmap := varmap s'\<rparr>)"

text \<open>The calls added between two states all satisfy \<open>P\<close>.\<close>

definition emits_only :: "(xct_call \<Rightarrow> bool) \<Rightarrow> xstate \<Rightarrow> xstate \<Rightarrow> bool" where
  "emits_only P s s' =
     (prefix (xct_calls s) (xct_calls s') \<and> list_all P (drop (length (xct_calls s)) (xct_calls s')))"

text \<open>
  The threshold of the string variants, as a property of one call: the numbers the call
  carries, the values the solver reads for its coefficients and active bounds, and the
  rule that all numbers are strings exactly when one of these values is above
  \<open>10 ^ 18\<close> in absolute value.
\<close>

fun call_numbers :: "xct_call \<Rightarrow> xnum list" where
  "call_numbers (AddVariable n lb ub) = [lb, ub]"
| "call_numbers (AddConstraint cs vs uselb lb useub ub) = cs @ [lb, ub]"
| "call_numbers (AddReification h cs vs b) = cs @ [b]"
| "call_numbers (AddRightReification h cs vs b) = cs @ [b]"
| "call_numbers (AddLeftReification h cs vs b) = cs @ [b]"
| "call_numbers other = []"

fun call_values :: "xct_call \<Rightarrow> int list" where
  "call_values (AddVariable n lb ub) = [xval lb, xval ub]"
| "call_values (AddConstraint cs vs uselb lb useub ub) =
     map xval cs @ (if uselb then [xval lb] else []) @ (if useub then [xval ub] else [])"
| "call_values (AddReification h cs vs b) = map xval cs @ [xval b]"
| "call_values (AddRightReification h cs vs b) = map xval cs @ [xval b]"
| "call_values (AddLeftReification h cs vs b) = map xval cs @ [xval b]"
| "call_values other = []"

definition threshold_ok :: "xct_call \<Rightarrow> bool" where
  "threshold_ok c =
     (if list_ex (\<lambda>x. over_1e18 \<bar>x\<bar>) (call_values c)
      then list_all is_str (call_numbers c)
      else list_all (\<lambda>x. \<not> is_str x) (call_numbers c))"

fun is_AddVariable :: "xct_call \<Rightarrow> bool" where
  "is_AddVariable (AddVariable n lb ub) = True"
| "is_AddVariable other = False"

definition declared_ok :: "xct_call \<Rightarrow> bool" where
  "declared_ok c = (is_AddVariable c \<and> threshold_ok c)"

text \<open>A number as a posting helper sends it: as a string in the string variant.\<close>

definition as_sent :: "bool \<Rightarrow> int \<Rightarrow> xnum" where
  "as_sent big x = (if big then num_str (PyNum x) else fix_item (PyNum x))"

text \<open>A solver answer used in the examples: the run proved there is no solution.\<close>

definition reply_unsat :: xct_reply where
  "reply_unsat = \<lparr>run_status = 0, has_solution = False, last_solution = (\<lambda>h. 0), objective_bounds = (0, 0)\<rparr>"

section \<open>What the constraints and the solver calls mean\<close>

text \<open>
  Modelled from the spec: the Exact solver is not part of the sources. Its reading of a
  call, under an assignment \<open>\<sigma>\<close> of integers to its variable names, follows section 6
  and section 4.3 of the specification and the comments of \<^verbatim>\<open>_post_constraint\<close>: a
  bounded linear constraint bounds the linear sum by its active bounds, a right
  reification says "head implies sum \<ge> bound", a left reification says
  "sum \<ge> bound implies head", and the head is true when its variable is 1.
\<close>

definition lin :: "(string \<Rightarrow> int) \<Rightarrow> int list \<Rightarrow> string list \<Rightarrow> int" where
  "lin \<sigma> cs vs = sum_list (map (\<lambda>(c, v). c * \<sigma> v) (zip cs vs))"

fun holds :: "(string \<Rightarrow> int) \<Rightarrow> xct_call \<Rightarrow> bool" where
  "holds \<sigma> (AddVariable n lb ub) = (xval lb \<le> \<sigma> n \<and> \<sigma> n \<le> xval ub)"
| "holds \<sigma> (AddConstraint cs vs uselb lb useub ub) =
     ((uselb \<longrightarrow> xval lb \<le> lin \<sigma> (map xval cs) vs) \<and> (useub \<longrightarrow> lin \<sigma> (map xval cs) vs \<le> xval ub))"
| "holds \<sigma> (AddReification h cs vs b) = ((\<sigma> h = 1) = (xval b \<le> lin \<sigma> (map xval cs) vs))"
| "holds \<sigma> (AddRightReification h cs vs b) = (\<sigma> h = 1 \<longrightarrow> xval b \<le> lin \<sigma> (map xval cs) vs)"
| "holds \<sigma> (AddLeftReification h cs vs b) = (xval b \<le> lin \<sigma> (map xval cs) vs \<longrightarrow> \<sigma> h = 1)"
| "holds \<sigma> other = True"

text \<open>
  The meaning of the constraints themselves: a variable has the value of its name, a
  negated view is true when its variable is not, an implication holds when its condition
  is false or its comparison holds.
\<close>

fun atom_val :: "(string \<Rightarrow> int) \<Rightarrow> atom \<Rightarrow> int" where
  "atom_val \<sigma> (Num n) = n"
| "atom_val \<sigma> (Var (NegBoolView b)) = 1 - \<sigma> b"
| "atom_val \<sigma> (Var v) = \<sigma> (var_name v)"

fun expr_val :: "(string \<Rightarrow> int) \<Rightarrow> expr \<Rightarrow> int" where
  "expr_val \<sigma> (Atom a) = atom_val \<sigma> a"
| "expr_val \<sigma> (Sum args) = sum_list (map (atom_val \<sigma>) args)"
| "expr_val \<sigma> (WSum cs args) = sum_list (map (\<lambda>(c, x). c * atom_val \<sigma> x) (zip cs args))"
| "expr_val \<sigma> (Sub args) = (case args of [a, b] \<Rightarrow> atom_val \<sigma> a - atom_val \<sigma> b | _ \<Rightarrow> 0)"
| "expr_val \<sigma> (OtherExpr nm) = 0"

fun cmp_holds :: "cmp_op \<Rightarrow> int \<Rightarrow> int \<Rightarrow> bool" where
  "cmp_holds LE x y = (x \<le> y)"
| "cmp_holds GE x y = (x \<ge> y)"
| "cmp_holds EQ x y = (x = y)"
| "cmp_holds LT x y = (x < y)"
| "cmp_holds GT x y = (x > y)"
| "cmp_holds NE x y = (x \<noteq> y)"

fun cond_true :: "(string \<Rightarrow> int) \<Rightarrow> expr \<Rightarrow> bool" where
  "cond_true \<sigma> (Atom (Var (NegBoolView b))) = (\<sigma> b \<noteq> 1)"
| "cond_true \<sigma> (Atom (Var v)) = (\<sigma> (var_name v) = 1)"
| "cond_true \<sigma> other = (expr_val \<sigma> other \<noteq> 0)"

fun cons_holds :: "(string \<Rightarrow> int) \<Rightarrow> cons \<Rightarrow> bool" where
  "cons_holds \<sigma> (Comparison opr lhs rhs) = cmp_holds opr (expr_val \<sigma> lhs) (expr_val \<sigma> rhs)"
| "cons_holds \<sigma> (Implication cond sub_expr) = (cond_true \<sigma> cond \<longrightarrow> cons_holds \<sigma> sub_expr)"

text \<open>A call with every number in native form, whichever way it was sent.\<close>

fun native_form :: "xct_call \<Rightarrow> xct_call" where
  "native_form (AddVariable n lb ub) = AddVariable n (XInt (xval lb)) (XInt (xval ub))"
| "native_form (AddConstraint cs vs uselb lb useub ub) =
     AddConstraint (map (\<lambda>c. XInt (xval c)) cs) vs uselb (XInt (xval lb)) useub (XInt (xval ub))"
| "native_form (AddReification h cs vs b) = AddReification h (map (\<lambda>c. XInt (xval c)) cs) vs (XInt (xval b))"
| "native_form (AddRightReification h cs vs b) = AddRightReification h (map (\<lambda>c. XInt (xval c)) cs) vs (XInt (xval b))"
| "native_form (AddLeftReification h cs vs b) = AddLeftReification h (map (\<lambda>c. XInt (xval c)) cs) vs (XInt (xval b))"
| "native_form other = other"

text \<open>
  Modelled from the spec: the table of section 4.3 (rows by condition and operator), and
  the quadruples of \<^verbatim>\<open>compile_comparison\<close>, where the unused bound is the \<open>0\<close> the code
  passes.
\<close>

definition Right_reif :: "string \<Rightarrow> int list \<Rightarrow> string list \<Rightarrow> int \<Rightarrow> xct_call" where
  "Right_reif cond coefs vars rhs = AddRightReification cond (map XInt coefs) vars (XInt rhs)"

definition Left_reif :: "string \<Rightarrow> int list \<Rightarrow> string list \<Rightarrow> int \<Rightarrow> xct_call" where
  "Left_reif cond coefs vars rhs = AddLeftReification cond (map XInt coefs) vars (XInt rhs)"

fun indicator_table :: "bool \<Rightarrow> cmp_op \<Rightarrow> string \<Rightarrow> int list \<Rightarrow> string list \<Rightarrow> int \<Rightarrow> xct_call list" where
  "indicator_table True EQ cond coefs vars rhs = [Right_reif cond coefs vars rhs, Right_reif cond (map uminus coefs) vars (- rhs)]"
| "indicator_table False EQ cond coefs vars rhs = [Left_reif cond coefs vars (rhs + 1), Left_reif cond (map uminus coefs) vars (1 - rhs)]"
| "indicator_table True GE cond coefs vars rhs = [Right_reif cond coefs vars rhs]"
| "indicator_table False GE cond coefs vars rhs = [Left_reif cond (map uminus coefs) vars (1 - rhs)]"
| "indicator_table True LE cond coefs vars rhs = [Right_reif cond (map uminus coefs) vars (- rhs)]"
| "indicator_table False LE cond coefs vars rhs = [Left_reif cond coefs vars (1 + rhs)]"
| "indicator_table direct other cond coefs vars rhs = []"

fun comparison_table :: "cmp_op \<Rightarrow> int list \<Rightarrow> string list \<Rightarrow> int \<Rightarrow> xct_call list" where
  "comparison_table LE coefs vars rhs = [AddConstraint (map XInt coefs) vars False (XInt 0) True (XInt rhs)]"
| "comparison_table GE coefs vars rhs = [AddConstraint (map XInt coefs) vars True (XInt rhs) False (XInt 0)]"
| "comparison_table EQ coefs vars rhs = [AddConstraint (map XInt coefs) vars True (XInt rhs) True (XInt rhs)]"
| "comparison_table other coefs vars rhs = []"

fun cond_direct :: "expr \<Rightarrow> bool" where
  "cond_direct (Atom (Var (NegBoolView b))) = False"
| "cond_direct other = True"

fun cond_name :: "expr \<Rightarrow> string" where
  "cond_name (Atom (Var v)) = var_name v"
| "cond_name other = []"

text \<open>Every handle stored in \<^verbatim>\<open>_varmap\<close> is the name of its variable.\<close>

definition varmap_ok :: "xstate \<Rightarrow> bool" where
  "varmap_ok s = list_all (\<lambda>(v, h). h = var_name v) (varmap s)"

text \<open>The calls added between two states.\<close>

definition new_calls :: "xstate \<Rightarrow> xstate \<Rightarrow> xct_call list" where
  "new_calls s s' = drop (length (xct_calls s)) (xct_calls s')"

text \<open>
  The negation of a flat objective, as a flat expression: the same arguments with the
  opposite coefficients (a number is negated).
\<close>

fun neg_obj :: "expr \<Rightarrow> expr" where
  "neg_obj (Atom (Num n)) = Atom (Num (- n))"
| "neg_obj (Atom (Var v)) = WSum [-1] [Var v]"
| "neg_obj (Sum args) = WSum (replicate (length args) (-1)) args"
| "neg_obj (WSum cs args) = WSum (map uminus cs) args"
| "neg_obj (Sub args) = WSum [-1, 1] args"
| "neg_obj (OtherExpr nm) = OtherExpr nm"

text \<open>The session with another direction flag.\<close>

definition with_direction :: "bool \<Rightarrow> xstate \<Rightarrow> xstate" where
  "with_direction m s = s\<lparr>objective_minimize := m\<rparr>"

text \<open>An answer and a session used in the examples.\<close>

definition reply_found :: xct_reply where
  "reply_found = \<lparr>run_status = 0, has_solution = True,
     last_solution = (\<lambda>h. if h = ''x'' then 1 else 2), objective_bounds = (0, 8)\<rparr>"

definition state_minimised :: xstate where
  "state_minimised = xstate_init\<lparr>
     xct_calls := [AddVariable ''x'' (XInt 0) (XInt 5), AddVariable ''y'' (XInt 0) (XInt 5), Init [2, 3] [''x'', ''y'']],
     varmap := [(IntVarImpl ''x'' 0 5, ''x''), (IntVarImpl ''y'' 0 5, ''y'')],
     user_vars := [IntVarImpl ''x'' 0 5, IntVarImpl ''y'' 0 5],
     has_objective := True\<rparr>"

section \<open>The interface to Z3 (\<^verbatim>\<open>z3.py\<close>)\<close>

text \<open>
  The expressions of Z3 the interface builds: numbers, Boolean and integer constants by
  name, and the connectives, sums, products, comparisons and \<^verbatim>\<open>Distinct\<close>.
\<close>

datatype z3_expr =
    Z3Num int
  | Z3Bool string
  | Z3Int string
  | Z3Not z3_expr
  | Z3And "z3_expr list"
  | Z3Or "z3_expr list"
  | Z3Xor "z3_expr list"
  | Z3Implies z3_expr z3_expr
  | Z3Sum "z3_expr list"
  | Z3Mul z3_expr z3_expr
  | Z3Cmp cmp_op z3_expr z3_expr
  | Z3Distinct "z3_expr list"

text \<open>
  The session: the expressions given to \<^verbatim>\<open>z3_solver.add\<close>, the settings given to
  \<^verbatim>\<open>z3_solver.set\<close>, \<^verbatim>\<open>_varmap\<close>, \<^verbatim>\<open>user_vars\<close>, \<^verbatim>\<open>objective_value_\<close>, the
  \<^verbatim>\<open>_value\<close> of the variables and the exit status of \<^verbatim>\<open>cpm_status\<close>.
\<close>

record zstate =
  z3_assertions :: "z3_expr list"
  z3_settings :: "(string \<times> string) list"
  z3_varmap :: "(cpm_var \<times> z3_expr) list"
  z3_user_vars :: "cpm_var list"
  z3_objective_value :: "int option"
  z3_var_value :: "(cpm_var \<times> pyval) list"
  z3_exitstatus :: exit_status

definition zstate_init :: zstate where
  "zstate_init = \<lparr>z3_assertions = [], z3_settings = [], z3_varmap = [], z3_user_vars = [],
     z3_objective_value = None, z3_var_value = [], z3_exitstatus = NOT_RUN\<rparr>"

text \<open>\<^verbatim>\<open>z3_solver.add(e)\<close>.\<close>

definition z3_solver_add :: "z3_expr \<Rightarrow> zstate \<Rightarrow> zstate" where
  "z3_solver_add e s = s\<lparr>z3_assertions := z3_assertions s @ [e]\<rparr>"

text \<open>
  \<^verbatim>\<open>solver_var\<close> after the tests for a number and a negated view: an unseen variable is
  added to \<^verbatim>\<open>user_vars\<close>, created by kind (an integer variable with its two bounds
  posted), and stored; then the stored handle is returned.
\<close>

definition z3_solver_var_plain :: "zstate \<Rightarrow> cpm_var \<Rightarrow> (py_error + z3_expr) \<times> zstate" where
  "z3_solver_var_plain s v =
     (case map_of (z3_varmap s) v of
        Some h \<Rightarrow> (Inr h, s)
      | None \<Rightarrow>
         (let s1 = s\<lparr>z3_user_vars := set_update (z3_user_vars s) [v]\<rparr> in
          case v of
            BoolVarImpl n \<Rightarrow>
              (let revar = Z3Bool n in
               (Inr revar, s1\<lparr>z3_varmap := z3_varmap s1 @ [(v, revar)]\<rparr>))
          | IntVarImpl n lb ub \<Rightarrow>
              (let revar = Z3Int n;
                   s2 = z3_solver_add (Z3Cmp GE revar (Z3Num lb)) s1;
                   s3 = z3_solver_add (Z3Cmp LE revar (Z3Num ub)) s2
               in (Inr revar, s3\<lparr>z3_varmap := z3_varmap s3 @ [(v, revar)]\<rparr>))
          | _ \<Rightarrow> (Inl NotImplementedError, s1)))"

fun z3_solver_var :: "zstate \<Rightarrow> atom \<Rightarrow> (py_error + z3_expr) \<times> zstate" where
  "z3_solver_var s (Num n) = (Inr (Z3Num n), s)"
| "z3_solver_var s (Var (NegBoolView b)) =
     (case z3_solver_var_plain s (BoolVarImpl b) of
        (Inl e, s') \<Rightarrow> (Inl e, s')
      | (Inr h, s') \<Rightarrow> (Inr (Z3Not h), s'))"
| "z3_solver_var s (Var v) = z3_solver_var_plain s v"

text \<open>
  The answer of Z3 to \<^verbatim>\<open>check\<close>: the \<^verbatim>\<open>repr\<close> of the result and, for \<^verbatim>\<open>model()\<close>, the
  values of the integer and the Boolean constants. \<^verbatim>\<open>sol[h]\<close> is defined for a constant.
\<close>

record z3_reply =
  check_result :: string
  z3_ints :: "string \<Rightarrow> int"
  z3_bools :: "string \<Rightarrow> bool"

fun z3_model_value :: "z3_reply \<Rightarrow> z3_expr \<Rightarrow> py_error + pyval" where
  "z3_model_value r (Z3Int n) = Inr (PyInt (z3_ints r n))"
| "z3_model_value r (Z3Bool n) = Inr (PyBool (z3_bools r n))"
| "z3_model_value r other = Inl Z3Exception"

text \<open>The two loops over \<^verbatim>\<open>user_vars\<close> at the end of \<^verbatim>\<open>solve\<close>.\<close>

fun z3_fill :: "zstate \<Rightarrow> z3_reply \<Rightarrow> cpm_var list \<Rightarrow> (py_error + unit) \<times> zstate" where
  "z3_fill s r [] = (Inr (), s)"
| "z3_fill s r (v # vs) =
     (case z3_solver_var s (Var v) of
        (Inl e, s') \<Rightarrow> (Inl e, s')
      | (Inr sol_var, s') \<Rightarrow>
          (case z3_model_value r sol_var of
             Inl e \<Rightarrow> (Inl e, s')
           | Inr x \<Rightarrow> z3_fill (s'\<lparr>z3_var_value := AList.update v x (z3_var_value s')\<rparr>) r vs))"

fun z3_clear :: "(cpm_var \<times> pyval) list \<Rightarrow> cpm_var list \<Rightarrow> (cpm_var \<times> pyval) list" where
  "z3_clear vals [] = vals"
| "z3_clear vals (v # vs) = z3_clear (AList.update v PyNone vals) vs"

text \<open>
  \<^verbatim>\<open>solve\<close>. \<^verbatim>\<open>_solve_return\<close> belongs to the solver interface, outside the sources: it
  is the argument \<open>solve_return\<close>. The time limit is in whole seconds, the keyword
  arguments are given by their \<^verbatim>\<open>str\<close>, and the run time statistic is left out. \<open>r\<close> is
  the answer of Z3 to \<^verbatim>\<open>check(assumptions)\<close>.
\<close>

definition z3_set :: "string \<Rightarrow> string \<Rightarrow> zstate \<Rightarrow> zstate" where
  "z3_set k v s = s\<lparr>z3_settings := z3_settings s @ [(k, v)]\<rparr>"

definition z3_set_all :: "zstate \<Rightarrow> (string \<times> string) list \<Rightarrow> zstate" where
  "z3_set_all s kwargs = foldl (\<lambda>t (key, val). z3_set key val t) s kwargs"

definition z3_set_timeout :: "zstate \<Rightarrow> int option \<Rightarrow> zstate" where
  "z3_set_timeout s time_limit =
     (case time_limit of None \<Rightarrow> s | Some t \<Rightarrow> z3_set ''timeout'' (py_str (t * 1000)) s)"

definition z3_solve :: "(exit_status \<Rightarrow> bool) \<Rightarrow> zstate \<Rightarrow> int option \<Rightarrow> atom list \<Rightarrow> (string \<times> string) list
    \<Rightarrow> z3_reply \<Rightarrow> (py_error + bool) \<times> zstate" where
  "z3_solve solve_return s time_limit assumptions kwargs r =
     (let s1 = z3_set_timeout s time_limit;
          s2 = z3_set_all s1 kwargs;
          my_status = check_result r;
          s3 = s2\<lparr>z3_exitstatus := NOT_RUN\<rparr>
      in if my_status \<noteq> ''sat'' \<and> my_status \<noteq> ''unsat'' \<and> my_status \<noteq> ''unknown''
         then (Inl NotImplementedError, s3)
         else
           (let s4 = s3\<lparr>z3_exitstatus :=
                        (if my_status = ''sat'' then FEASIBLE
                         else if my_status = ''unsat'' then UNSATISFIABLE else UNKNOWN)\<rparr>;
                has_sol = solve_return (z3_exitstatus s4);
                s5 = s4\<lparr>z3_objective_value := None\<rparr>
            in if has_sol then
                 (case z3_fill s5 r (z3_user_vars s5) of
                    (Inl e, s6) \<Rightarrow> (Inl e, s6)
                  | (Inr u, s6) \<Rightarrow> (Inr has_sol, s6))
               else (Inr has_sol, s5\<lparr>z3_var_value := z3_clear (z3_var_value s5) (z3_user_vars s5)\<rparr>)))"

text \<open>Answers and sessions used in the examples of the solve calls.\<close>

definition reply_timeout :: xct_reply where
  "reply_timeout = \<lparr>run_status = 2, has_solution = False, last_solution = (\<lambda>h. 0), objective_bounds = (0, 0)\<rparr>"

definition state_with_value :: xstate where
  "state_with_value = xstate_init\<lparr>user_vars := [IntVarImpl ''x'' 0 5], var_value := [(IntVarImpl ''x'' 0 5, PyInt 3)]\<rparr>"

definition z3_reply_unknown :: z3_reply where
  "z3_reply_unknown = \<lparr>check_result = ''unknown'', z3_ints = (\<lambda>n. 0), z3_bools = (\<lambda>n. False)\<rparr>"

definition zstate_with_value :: zstate where
  "zstate_with_value = zstate_init\<lparr>z3_varmap := [(IntVarImpl ''x'' 0 5, Z3Int ''x'')],
     z3_user_vars := [IntVarImpl ''x'' 0 5], z3_var_value := [(IntVarImpl ''x'' 0 5, PyInt 3)]\<rparr>"

text \<open>A \<^verbatim>\<open>_solve_return\<close> that is true for the two exit statuses with a solution.\<close>

definition solve_return_default :: "exit_status \<Rightarrow> bool" where
  "solve_return_default st = (st = OPTIMAL \<or> st = FEASIBLE)"

text \<open>
  The value of an expression of Z3 under a model, truth values as 1 and 0; a model
  satisfies a session when every expression given to \<^verbatim>\<open>z3_solver.add\<close> is true.
\<close>

fun z3_val :: "z3_reply \<Rightarrow> z3_expr \<Rightarrow> int" where
  "z3_val m (Z3Num n) = n"
| "z3_val m (Z3Bool n) = (if z3_bools m n then 1 else 0)"
| "z3_val m (Z3Int n) = z3_ints m n"
| "z3_val m (Z3Not e) = (if z3_val m e = 0 then 1 else 0)"
| "z3_val m (Z3And es) = (if list_all (\<lambda>e. z3_val m e \<noteq> 0) es then 1 else 0)"
| "z3_val m (Z3Or es) = (if list_ex (\<lambda>e. z3_val m e \<noteq> 0) es then 1 else 0)"
| "z3_val m (Z3Xor es) = (if odd (length (filter (\<lambda>e. z3_val m e \<noteq> 0) es)) then 1 else 0)"
| "z3_val m (Z3Implies a b) = (if z3_val m a = 0 \<or> z3_val m b \<noteq> 0 then 1 else 0)"
| "z3_val m (Z3Sum es) = sum_list (map (z3_val m) es)"
| "z3_val m (Z3Mul a b) = z3_val m a * z3_val m b"
| "z3_val m (Z3Cmp opr a b) = (if cmp_holds opr (z3_val m a) (z3_val m b) then 1 else 0)"
| "z3_val m (Z3Distinct es) = (if distinct (map (z3_val m) es) then 1 else 0)"

definition z3_satisfies :: "z3_reply \<Rightarrow> zstate \<Rightarrow> bool" where
  "z3_satisfies m s = list_all (\<lambda>a. z3_val m a \<noteq> 0) (z3_assertions s)"

text \<open>
  What holds of a session throughout: a stored handle is the constant of its variable,
  with the two bounds of an integer variable among the expressions given to Z3; a
  Boolean or integer variable of \<^verbatim>\<open>user_vars\<close> is stored, and no negated view is in
  \<^verbatim>\<open>user_vars\<close>.
\<close>

fun z3_stored_ok :: "z3_expr list \<Rightarrow> cpm_var \<times> z3_expr \<Rightarrow> bool" where
  "z3_stored_ok as (BoolVarImpl n, h) = (h = Z3Bool n)"
| "z3_stored_ok as (IntVarImpl n lb ub, h) =
     (h = Z3Int n \<and> Z3Cmp GE (Z3Int n) (Z3Num lb) \<in> set as \<and> Z3Cmp LE (Z3Int n) (Z3Num ub) \<in> set as)"
| "z3_stored_ok as (v, h) = False"

fun z3_tracked_ok :: "(cpm_var \<times> z3_expr) list \<Rightarrow> cpm_var \<Rightarrow> bool" where
  "z3_tracked_ok vm (NegBoolView b) = False"
| "z3_tracked_ok vm (NumVarImpl n) = True"
| "z3_tracked_ok vm v = (map_of vm v \<noteq> None)"

definition z3_inv :: "zstate \<Rightarrow> bool" where
  "z3_inv s = (list_all (z3_stored_ok (z3_assertions s)) (z3_varmap s)
               \<and> list_all (z3_tracked_ok (z3_varmap s)) (z3_user_vars s))"

text \<open>
  The sessions that can arise: \<^verbatim>\<open>__add__\<close> translates its constraint, which touches
  the session only through \<^verbatim>\<open>solver_var\<close>, and gives the result to
  \<^verbatim>\<open>z3_solver.add\<close>; so a session is built from calls of \<^verbatim>\<open>solver_var\<close>, of
  \<^verbatim>\<open>z3_solver.add\<close> and of \<^verbatim>\<open>solve\<close>.
\<close>

inductive z3_reachable :: "zstate \<Rightarrow> bool" where
  z3_start: "z3_reachable zstate_init"
| z3_var: "z3_reachable s \<Longrightarrow> z3_reachable (snd (z3_solver_var s a))"
| z3_post: "z3_reachable s \<Longrightarrow> z3_reachable (z3_solver_add e s)"
| z3_solved: "z3_reachable s \<Longrightarrow> z3_reachable (snd (z3_solve solve_return s time_limit assumptions kwargs r))"

text \<open>A model and a session of Z3 used in the examples.\<close>

definition z3_reply_sat :: z3_reply where
  "z3_reply_sat = \<lparr>check_result = ''sat'', z3_ints = (\<lambda>n. 3), z3_bools = (\<lambda>n. False)\<rparr>"

definition zstate_declared :: zstate where
  "zstate_declared = zstate_init\<lparr>
     z3_assertions := [Z3Cmp GE (Z3Int ''x'') (Z3Num 0), Z3Cmp LE (Z3Int ''x'') (Z3Num 5)],
     z3_varmap := [(IntVarImpl ''x'' 0 5, Z3Int ''x'')],
     z3_user_vars := [IntVarImpl ''x'' 0 5]\<rparr>"

section \<open>Properties of the interface to Exact\<close>

subsection \<open>\<^verbatim>\<open>str\<close> of an integer reads back as the integer\<close>

lemma digit_val_digit_char: "d < 10 \<Longrightarrow> digit_val (digit_char d) = int d"
  by (simp add: digit_val_def digit_char_def)

lemma read_digits_snoc: "read_digits (cs @ [c]) = 10 * read_digits cs + digit_val c"
  by (simp add: read_digits_def)

lemma read_digits_nat_digits: "read_digits (nat_digits n) = int n"
proof (induction n rule: nat_digits.induct)
  case (1 n)
  show ?case
  proof (cases "n < 10")
    case True
    then show ?thesis
      by (subst nat_digits.simps) (simp add: read_digits_def digit_val_digit_char)
  next
    case False
    then have "read_digits (nat_digits n) = 10 * int (n div 10) + int (n mod 10)"
      using 1 by (subst nat_digits.simps) (simp add: read_digits_snoc digit_val_digit_char)
    then show ?thesis by presburger
  qed
qed

lemma hd_nat_digits: "\<exists>d cs. d < 10 \<and> nat_digits n = digit_char d # cs"
proof (induction n rule: nat_digits.induct)
  case (1 n)
  show ?case
  proof (cases "n < 10")
    case True
    then show ?thesis by (subst nat_digits.simps) auto
  next
    case False
    with 1 obtain d cs where "d < 10" "nat_digits (n div 10) = digit_char d # cs" by blast
    with False show ?thesis by (subst nat_digits.simps) auto
  qed
qed

lemma digit_char_not_minus: "d < 10 \<Longrightarrow> digit_char d \<noteq> CHR ''-''"
proof
  assume d: "d < 10" and "digit_char d = CHR ''-''"
  then have "(of_char (digit_char d) :: nat) = of_char CHR ''-''" by simp
  then show False using d by (simp add: digit_char_def)
qed

lemma read_int_py_str: "read_int (py_str i) = i"
proof (cases "i < 0")
  case True
  then show ?thesis by (simp add: py_str_def read_int_def read_digits_nat_digits)
next
  case False
  obtain d cs where d: "d < 10" "nat_digits (nat i) = digit_char d # cs"
    using hd_nat_digits by blast
  have "read_int (nat_digits (nat i)) = read_digits (nat_digits (nat i))"
    using d digit_char_not_minus by (simp add: read_int_def)
  with False show ?thesis by (simp add: py_str_def read_digits_nat_digits)
qed

lemma xval_str_num: "xval (str_num x) = x"
  by (simp add: str_num_def read_int_py_str)

lemma xval_fix_item: "xval (fix_item x) = num_val x"
  by (cases x) simp_all

subsection \<open>What a call can change\<close>

text \<open>
  Everything below \<^verbatim>\<open>_post_constraint\<close> only talks to the solver and fills
  \<^verbatim>\<open>_varmap\<close>: the calls made so far stay a prefix, and no other field changes.
\<close>
lemma solver_step_refl: "solver_step s s"
  by (simp add: solver_step_def)

lemma solver_step_trans: "solver_step s t \<Longrightarrow> solver_step t u \<Longrightarrow> solver_step s u"
  unfolding solver_step_def
  by (metis (no_types, lifting) prefix_order.order_trans xstate.surjective xstate.update_convs(1) xstate.update_convs(2))

lemma solver_step_xct: "solver_step s (xct c s)"
  by (simp add: solver_step_def xct_def)

lemma solver_step_fields:
  "solver_step s s' \<Longrightarrow> user_vars s' = user_vars s \<and> has_objective s' = has_objective s
     \<and> objective_minimize s' = objective_minimize s \<and> objective_value s' = objective_value s
     \<and> var_value s' = var_value s \<and> exitstatus s' = exitstatus s"
  unfolding solver_step_def
  by (metis xstate.select_convs(3-8) xstate.surjective xstate.update_convs(1) xstate.update_convs(2))

lemma solver_var_plain_step: "solver_var_plain s v = (r, s') \<Longrightarrow> solver_step s s'"
  by (auto simp: solver_var_plain_def solver_step_def xct_def Let_def split: option.splits cpm_var.splits if_splits)

lemma solver_var_step: "solver_var s a = (r, s') \<Longrightarrow> solver_step s s'"
  by (induction s a rule: solver_var.induct) (auto split: prod.splits sum.splits dest: solver_var_plain_step simp: solver_step_refl)

lemma sum_loop_step: "sum_loop s xs cs vs r = (res, s') \<Longrightarrow> solver_step s s'"
  by (induction s xs cs vs r rule: sum_loop.induct)
     (auto split: prod.splits sum.splits dest: solver_var_step solver_var_plain_step intro: solver_step_trans simp: solver_step_refl)

lemma wsum_loop_step: "wsum_loop s xs cs vs r = (res, s') \<Longrightarrow> solver_step s s'"
  by (induction s xs cs vs r rule: wsum_loop.induct)
     (auto split: prod.splits sum.splits dest: solver_var_step solver_var_plain_step intro: solver_step_trans simp: solver_step_refl)

lemma numexpr_rhs_step: "numexpr_rhs s e = (res, s') \<Longrightarrow> solver_step s s'"
  by (induction s e rule: numexpr_rhs.induct)
     (auto split: prod.splits sum.splits dest: solver_var_step solver_var_plain_step simp: solver_step_refl)

lemma numexpr_lhs_step: "numexpr_lhs s e cs vs r = (res, s') \<Longrightarrow> solver_step s s'"
  by (induction s e cs vs r rule: numexpr_lhs.induct)
     (auto split: prod.splits sum.splits list.splits dest: solver_var_step solver_var_plain_step sum_loop_step wsum_loop_step intro: solver_step_trans simp: solver_step_refl)

lemma make_numexpr_step: "make_numexpr s lhs rhs = (res, s') \<Longrightarrow> solver_step s s'"
  by (auto simp: make_numexpr_def split: prod.splits sum.splits dest: numexpr_rhs_step numexpr_lhs_step intro: solver_step_trans)

lemma add_xct_constr_step: "add_xct_constr s cs vs ul lb uu ub = (res, s') \<Longrightarrow> solver_step s s'"
  by (auto simp: add_xct_constr_def solver_step_refl solver_step_xct split: sum.splits if_splits)

lemma add_xct_reif_step: "add_xct_reif s h cs vs b = (res, s') \<Longrightarrow> solver_step s s'"
  by (auto simp: add_xct_reif_def solver_step_refl solver_step_xct split: sum.splits if_splits)

lemma add_xct_reif_right_step: "add_xct_reif_right s h cs vs b = (res, s') \<Longrightarrow> solver_step s s'"
  by (auto simp: add_xct_reif_right_def solver_step_refl solver_step_xct split: sum.splits if_splits)

lemma add_xct_reif_left_step: "add_xct_reif_left s h cs vs b = (res, s') \<Longrightarrow> solver_step s s'"
  by (auto simp: add_xct_reif_left_def solver_step_refl solver_step_xct split: sum.splits if_splits)

lemma indicator_cond_step: "indicator_cond s c = (res, s') \<Longrightarrow> solver_step s s'"
  by (induction s c rule: indicator_cond.induct)
     (auto split: prod.splits sum.splits dest: solver_var_step solver_var_plain_step simp: solver_step_refl)

lemma indicator_emit_step: "indicator_emit s h b opr cs vs r = (res, s') \<Longrightarrow> solver_step s s'"
  by (auto simp: indicator_emit_def solver_step_refl split: cmp_op.splits if_splits prod.splits sum.splits
      dest: add_xct_reif_right_step add_xct_reif_left_step intro: solver_step_trans)

lemma post_constraint_step: "post_constraint s c = (res, s') \<Longrightarrow> solver_step s s'"
proof (cases c)
  case (Comparison opr lhs rhs)
  assume "post_constraint s c = (res, s')"
  with Comparison show ?thesis
    by (auto simp: solver_step_refl split: prod.splits sum.splits cmp_op.splits
        dest!: make_numexpr_step add_xct_constr_step intro: solver_step_trans)
next
  case (Implication cond sub)
  assume "post_constraint s c = (res, s')"
  with Implication show ?thesis
    by (auto simp: solver_step_refl split: prod.splits sum.splits cons.splits option.splits if_splits
        dest!: make_numexpr_step indicator_cond_step indicator_emit_step intro: solver_step_trans)
qed

lemma post_all_step: "post_all s cs = (res, s') \<Longrightarrow> solver_step s s'"
  by (induction s cs rule: post_all.induct)
     (auto split: prod.splits sum.splits dest: post_constraint_step intro: solver_step_trans simp: solver_step_refl)



subsection \<open>Extraction, the objective and the solve calls\<close>

lemma solver_vars_step: "solver_vars s vs = (res, s') \<Longrightarrow> solver_step s s'"
  by (induction s vs arbitrary: res s' rule: solver_vars.induct)
     (auto split: prod.splits sum.splits dest: solver_var_step solver_var_plain_step intro: solver_step_trans simp: solver_step_refl)

lemma getSolAndObj_keeps:
  assumes "getSolAndObj s r = (res, s')"
  shows "has_objective s' = has_objective s \<and> objective_minimize s' = objective_minimize s
     \<and> user_vars s' = user_vars s \<and> exitstatus s' = exitstatus s \<and> prefix (xct_calls s) (xct_calls s')"
proof (cases "has_solution r")
  case False
  with assms show ?thesis by (auto simp: getSolAndObj_def)
next
  case True
  obtain q t where q: "solver_vars s (user_vars s) = (q, t)" by (cases "solver_vars s (user_vars s)")
  then have st: "solver_step s t" by (rule solver_vars_step)
  show ?thesis
  proof (cases q)
    case (Inl e)
    with assms True q have "s' = t" by (simp add: getSolAndObj_def)
    with st show ?thesis using solver_step_fields[of s t] by (simp add: solver_step_def)
  next
    case (Inr hs)
    with assms True q show ?thesis
      using solver_step_fields[OF st] st
      by (auto simp: getSolAndObj_def Let_def solver_step_def split: if_splits)
  qed
qed

text \<open>
  Claim C7. When the solver reports no solution, \<^verbatim>\<open>getSolAndObj\<close> returns \<open>False\<close> and
  sets \<^verbatim>\<open>objective_value_\<close> to \<^verbatim>\<open>None\<close>; the stored values of the variables, and every
  other field of the session, stay as they were.
\<close>

theorem getSolAndObj_no_solution:
  "\<not> has_solution r \<Longrightarrow>
     getSolAndObj s r = (Inr False, s\<lparr>objective_value := None\<rparr>)
     \<and> objective_value (snd (getSolAndObj s r)) = None
     \<and> var_value (snd (getSolAndObj s r)) = var_value s"
  by (simp add: getSolAndObj_def)

lemma add_cons_has_objective: "add_cons s vs cs = (res, s') \<Longrightarrow> has_objective s' = has_objective s"
  by (auto simp: add_cons_def dest!: post_all_step solver_step_fields)

lemma objective_sets_flag: "has_objective (snd (objective s e ov cv fc m))"
  by (auto simp: objective_def Let_def xct_def split: prod.splits sum.splits
      dest!: add_cons_has_objective make_numexpr_step solver_step_fields)

text \<open>
  Claim C5. After a call of \<^verbatim>\<open>objective\<close> (whatever its outcome), every further call of
  \<^verbatim>\<open>objective\<close> raises \<^verbatim>\<open>AssertionError\<close> and leaves the whole session, the calls
  made on the solver and the direction flag included, exactly as it found it: the check
  is the first statement of the method.
\<close>

theorem objective_only_once:
  "objective (snd (objective s e ov cv fc m)) e' ov' cv' fc' m' =
     (Inl AssertionError, snd (objective s e ov cv fc m))"
  using objective_sets_flag[of s e ov cv fc m] by (simp add: objective_def)

lemma set_options_keeps: "has_objective (set_options s kw) = has_objective s \<and> prefix (xct_calls s) (xct_calls (set_options s kw))"
  unfolding set_options_def
  by (induction kw arbitrary: s rule: rev_induct) (auto simp: xct_def split: prod.splits intro: prefix_order.order_trans)

lemma set_timeout_keeps: "has_objective (set_timeout s tlim) = has_objective s \<and> prefix (xct_calls s) (xct_calls (set_timeout s tlim))"
  by (auto simp: set_timeout_def xct_def split: option.splits)

lemma init_if_needed_flag: "has_objective (init_if_needed s)"
  by (simp add: init_if_needed_def xct_def)

lemma init_if_needed_calls: "\<not> has_objective s \<Longrightarrow> xct_calls (init_if_needed s) = xct_calls s @ [Init [] []]"
  by (simp add: init_if_needed_def xct_def)

lemma solve_has_objective: "has_objective (snd (solve s tlim asm kw r))"
proof -
  let ?s3 = "set_options (set_timeout (init_if_needed s) tlim) kw"
  have h3: "has_objective ?s3"
    by (simp add: set_options_keeps set_timeout_keeps init_if_needed_flag)
  have g: "\<And>st. has_objective (snd (getSolAndObj ((xct RunFull ?s3)\<lparr>exitstatus := NOT_RUN, exitstatus := st\<rparr>) r))"
  proof -
    fix st
    obtain q t where q: "getSolAndObj ((xct RunFull ?s3)\<lparr>exitstatus := NOT_RUN, exitstatus := st\<rparr>) r = (q, t)"
      by (cases "getSolAndObj ((xct RunFull ?s3)\<lparr>exitstatus := NOT_RUN, exitstatus := st\<rparr>) r")
    from getSolAndObj_keeps[OF q] h3 q
    show "has_objective (snd (getSolAndObj ((xct RunFull ?s3)\<lparr>exitstatus := NOT_RUN, exitstatus := st\<rparr>) r))"
      by (simp add: xct_def)
  qed
  show ?thesis
    using h3 g by (simp add: solve_def Let_def xct_def)
qed

lemma run_once_loop_keeps:
  "run_once_loop s rs = Some (r, rest, t) \<Longrightarrow> has_objective t = has_objective s \<and> prefix (xct_calls s) (xct_calls t)"
proof (induction s rs rule: run_once_loop.induct)
  case (1 s)
  then show ?case by simp
next
  case (2 s r' rs)
  show ?case
  proof (cases "run_status r' = 3")
    case True
    with 2 have "has_objective t = has_objective (xct RunOnce s) \<and> prefix (xct_calls (xct RunOnce s)) (xct_calls t)"
      by simp
    then show ?thesis by (auto simp: xct_def dest: append_prefixD)
  next
    case False
    with "2.prems" show ?thesis by (auto simp: xct_def)
  qed
qed

lemma solveAll_loop_has_objective:
  "solveAll_loop lim n s rs = Some (res, s') \<Longrightarrow> has_objective s \<Longrightarrow> has_objective s' \<and> prefix (xct_calls s) (xct_calls s')"
proof (induction lim n s rs arbitrary: res s' rule: solveAll_loop.induct)
  case (1 lim n s rs)
  show ?case
  proof (cases "lim = None \<or> n < the lim")
    case False
    with "1.prems" show ?thesis by (simp add: solveAll_loop.simps)
  next
    case True
    with "1.prems" obtain r rest t where ro: "run_once_loop s rs = Some (r, rest, t)"
      by (subst (asm) solveAll_loop.simps) (auto split: option.splits)
    have ht: "has_objective t" and pt: "prefix (xct_calls s) (xct_calls t)"
      using run_once_loop_keeps[OF ro] "1.prems"(2) by simp_all
    show ?thesis
    proof (cases "run_status r = 1")
      case False
      with "1.prems"(1) True ro ht pt show ?thesis
        by (subst (asm) solveAll_loop.simps) (auto split: if_splits)
    next
      case r1: True
      obtain q u where g: "getSolAndObj t r = (q, u)" by (cases "getSolAndObj t r")
      have hu: "has_objective u" and pu: "prefix (xct_calls s) (xct_calls u)"
        using getSolAndObj_keeps[OF g] ht pt by auto
      show ?thesis
      proof (cases q)
        case (Inl e)
        with "1.prems"(1) True ro r1 g hu pu show ?thesis
          by (subst (asm) solveAll_loop.simps) auto
      next
        case (Inr b)
        with "1.prems"(1) True ro r1 g
        have rec: "solveAll_loop lim (n + 1) (xct InvalidateLastSol u) rest = Some (res, s')"
          by (subst (asm) solveAll_loop.simps) auto
        have hx: "has_objective (xct InvalidateLastSol u)" using hu by (simp add: xct_def)
        have a: "\<not> \<not> (run_status r = 0 \<or> run_status r = 1)" and b: "run_status r \<noteq> 0"
          using r1 by simp_all
        have "has_objective s' \<and> prefix (xct_calls (xct InvalidateLastSol u)) (xct_calls s')"
          by (rule "1.IH"[OF True ro refl refl a b g[symmetric] Inr rec hx])
        with pu show ?thesis by (auto simp: xct_def dest: append_prefixD)
      qed
    qed
  qed
qed


lemma run_once_loop_returns:
  "\<exists>x\<in>set rs. run_status x \<noteq> 3 \<Longrightarrow> \<exists>r rest t. run_once_loop s rs = Some (r, rest, t)"
  by (induction s rs rule: run_once_loop.induct) auto

lemma run_once_loop_split:
  "run_once_loop s rs = Some (r, rest, t) \<Longrightarrow>
     \<exists>pre. rs = pre @ r # rest \<and> (\<forall>x\<in>set pre. run_status x = 3) \<and> run_status r \<noteq> 3"
proof (induction s rs rule: run_once_loop.induct)
  case (1 s)
  then show ?case by simp
next
  case (2 s r' rs)
  show ?case
  proof (cases "run_status r' = 3")
    case True
    with 2 obtain pre where "rs = pre @ r # rest" "\<forall>x\<in>set pre. run_status x = 3" "run_status r \<noteq> 3"
      by auto
    with True show ?thesis by (intro exI[of _ "r' # pre"]) simp
  next
    case False
    with "2.prems" show ?thesis by (intro exI[of _ "[]"]) auto
  qed
qed

lemma solveAll_loop_returns:
  "\<exists>x\<in>set rs. run_status x \<noteq> 3 \<and> run_status x \<noteq> 1 \<Longrightarrow> solveAll_loop lim n s rs \<noteq> None"
proof (induction lim n s rs rule: solveAll_loop.induct)
  case (1 lim n s rs)
  show ?case
  proof (cases "lim = None \<or> n < the lim")
    case False
    then show ?thesis by (subst solveAll_loop.simps) auto
  next
    case True
    from "1.prems" have "\<exists>x\<in>set rs. run_status x \<noteq> 3" by blast
    then obtain r rest t where ro: "run_once_loop s rs = Some (r, rest, t)"
      using run_once_loop_returns by blast
    from run_once_loop_split[OF ro] obtain pre where
      pre: "rs = pre @ r # rest" "\<forall>x\<in>set pre. run_status x = 3" "run_status r \<noteq> 3" by blast
    show ?thesis
    proof (cases "run_status r = 1")
      case False
      with True ro show ?thesis by (subst solveAll_loop.simps) auto
    next
      case r1: True
      with pre "1.prems" have more: "\<exists>x\<in>set rest. run_status x \<noteq> 3 \<and> run_status x \<noteq> 1" by auto
      obtain q u where g: "getSolAndObj t r = (q, u)" by (cases "getSolAndObj t r")
      show ?thesis
      proof (cases q)
        case (Inl e)
        with True ro r1 g show ?thesis by (subst solveAll_loop.simps) auto
      next
        case (Inr b)
        have a: "\<not> \<not> (run_status r = 0 \<or> run_status r = 1)" and b: "run_status r \<noteq> 0"
          using r1 by simp_all
        have "solveAll_loop lim (n + 1) (xct InvalidateLastSol u) rest \<noteq> None"
          by (rule "1.IH"[OF True ro refl refl a b g[symmetric] Inr more])
        with True ro r1 g Inr show ?thesis by (subst solveAll_loop.simps) auto
      qed
    qed
  qed
qed

lemma solveAll_returns:
  "\<exists>x\<in>set rs. run_status x \<noteq> 3 \<and> run_status x \<noteq> 1 \<Longrightarrow> solveAll s tlim lim kw rs \<noteq> None"
  by (simp add: solveAll_def Let_def solveAll_loop_returns)

lemma solve_calls: "prefix (xct_calls (init_if_needed s)) (xct_calls (snd (solve s tlim asm kw r)))"
proof -
  let ?s3 = "set_options (set_timeout (init_if_needed s) tlim) kw"
  have p3: "prefix (xct_calls (init_if_needed s)) (xct_calls ?s3)"
    using set_options_keeps[of "set_timeout (init_if_needed s) tlim" kw] set_timeout_keeps[of "init_if_needed s" tlim]
    by (auto intro: prefix_order.order_trans)
  have g: "\<And>st. prefix (xct_calls (init_if_needed s)) (xct_calls (snd (getSolAndObj ((xct RunFull ?s3)\<lparr>exitstatus := NOT_RUN, exitstatus := st\<rparr>) r)))"
  proof -
    fix st
    obtain q t where q: "getSolAndObj ((xct RunFull ?s3)\<lparr>exitstatus := NOT_RUN, exitstatus := st\<rparr>) r = (q, t)"
      by (cases "getSolAndObj ((xct RunFull ?s3)\<lparr>exitstatus := NOT_RUN, exitstatus := st\<rparr>) r")
    from getSolAndObj_keeps[OF q] have "prefix (xct_calls ?s3 @ [RunFull]) (xct_calls t)"
      by (simp add: xct_def)
    with p3 q
    show "prefix (xct_calls (init_if_needed s)) (xct_calls (snd (getSolAndObj ((xct RunFull ?s3)\<lparr>exitstatus := NOT_RUN, exitstatus := st\<rparr>) r)))"
      by (auto dest: append_prefixD intro: prefix_order.order_trans)
  qed
  show ?thesis
    using p3 g by (auto simp: solve_def Let_def xct_def intro: prefix_order.order_trans)
qed

lemma solveAll_keeps:
  assumes "solveAll s tlim lim kw rs = Some (res, s')"
  shows "has_objective s' \<and> prefix (xct_calls (init_if_needed s)) (xct_calls s')"
proof -
  let ?s2 = "xct (SetOption ''opt-boundupper'' (py_str 0)) (init_if_needed s)"
  let ?s4 = "set_options (set_timeout ?s2 tlim) kw"
  have h4: "has_objective ?s4"
    by (simp add: set_options_keeps set_timeout_keeps init_if_needed_flag xct_def)
  have p4: "prefix (xct_calls (init_if_needed s)) (xct_calls ?s4)"
    using set_options_keeps[of "set_timeout ?s2 tlim" kw] set_timeout_keeps[of ?s2 tlim]
    by (auto simp: xct_def dest: append_prefixD intro: prefix_order.order_trans)
  from assms have "solveAll_loop lim 0 ?s4 rs = Some (res, s')" by (simp add: solveAll_def Let_def)
  from solveAll_loop_has_objective[OF this h4] p4 show ?thesis
    by (auto intro: prefix_order.order_trans)
qed

text \<open>
  Claim C9. On a session whose objective was never set, \<^verbatim>\<open>solve\<close> and \<^verbatim>\<open>solveAll\<close>
  first call \<^verbatim>\<open>init([],[])\<close> and set \<^verbatim>\<open>has_objective\<close>; whatever \<^verbatim>\<open>solve\<close> does
  afterwards, and whenever \<^verbatim>\<open>solveAll\<close> returns or raises, a later call of
  \<^verbatim>\<open>objective\<close> raises \<^verbatim>\<open>AssertionError\<close> and changes nothing.
\<close>

theorem solve_marks_objective:
  assumes "\<not> has_objective s"
  shows "prefix (xct_calls s @ [Init [] []]) (xct_calls (snd (solve s tlim asm kw r)))
     \<and> objective (snd (solve s tlim asm kw r)) e ov cv fc m = (Inl AssertionError, snd (solve s tlim asm kw r))
     \<and> (\<forall>res s'. solveAll s tlim' lim kw' rs = Some (res, s') \<longrightarrow>
          prefix (xct_calls s @ [Init [] []]) (xct_calls s')
          \<and> objective s' e ov cv fc m = (Inl AssertionError, s'))"
  using assms solve_calls[of s tlim asm kw r] solve_has_objective[of s tlim asm kw r] solveAll_keeps[of s tlim' lim kw' rs]
  by (auto simp: init_if_needed_calls objective_def)


text \<open>An instance: a session with a stored value and a stored objective value, and an answer without solution.\<close>

theorem getSolAndObj_no_solution_witness:
  "\<not> has_solution reply_unsat
   \<and> getSolAndObj (xstate_init\<lparr>objective_value := Some 3, var_value := [(IntVarImpl ''x'' 0 5, PyInt 3)]\<rparr>) reply_unsat
       = (Inr False, xstate_init\<lparr>objective_value := None, var_value := [(IntVarImpl ''x'' 0 5, PyInt 3)]\<rparr>)"
  using getSolAndObj_no_solution[of reply_unsat "xstate_init\<lparr>objective_value := Some 3, var_value := [(IntVarImpl ''x'' 0 5, PyInt 3)]\<rparr>"]
  by (simp add: reply_unsat_def)

lemma objective_example:
  "objective xstate_init (Atom (Var (IntVarImpl ''x'' 0 5))) [IntVarImpl ''x'' 0 5] [] [] False
    = (Inr (), xstate_init\<lparr>xct_calls := [AddVariable ''x'' (XInt 0) (XInt 5), Init [-1] [''x'']],
         varmap := [(IntVarImpl ''x'' 0 5, ''x'')], user_vars := [IntVarImpl ''x'' 0 5],
         has_objective := True, objective_minimize := False\<rparr>)"
  by (simp add: objective_def add_cons_def set_update_def make_numexpr_def solver_var_plain_def xct_def
      xstate_init_def over_1e18_def Let_def)

text \<open>An instance: the first call succeeds and posts the objective, the second fails and leaves the session of the first.\<close>

theorem objective_only_once_witness:
  "objective (snd (objective xstate_init (Atom (Var (IntVarImpl ''x'' 0 5))) [IntVarImpl ''x'' 0 5] [] [] False))
      (Atom (Var (IntVarImpl ''y'' 0 5))) [IntVarImpl ''y'' 0 5] [] [] True
    = (Inl AssertionError, xstate_init\<lparr>xct_calls := [AddVariable ''x'' (XInt 0) (XInt 5), Init [-1] [''x'']],
         varmap := [(IntVarImpl ''x'' 0 5, ''x'')], user_vars := [IntVarImpl ''x'' 0 5],
         has_objective := True, objective_minimize := False\<rparr>)"
  using objective_only_once[of xstate_init "Atom (Var (IntVarImpl ''x'' 0 5))" "[IntVarImpl ''x'' 0 5]" "[]" "[]" False
     "Atom (Var (IntVarImpl ''y'' 0 5))" "[IntVarImpl ''y'' 0 5]" "[]" "[]" True]
  by (simp add: objective_example)

lemma solve_example:
  "solve xstate_init None None [] reply_unsat
     = (Inr False, xstate_init\<lparr>xct_calls := [Init [] [], RunFull], has_objective := True, exitstatus := UNSATISFIABLE\<rparr>)"
  by (simp add: solve_def init_if_needed_def set_timeout_def set_options_def getSolAndObj_def xct_def
      xstate_init_def reply_unsat_def Let_def)

lemma solveAll_example:
  "solveAll xstate_init None None [] [reply_unsat]
     = Some (Inr 0, xstate_init\<lparr>xct_calls := [Init [] [], SetOption ''opt-boundupper'' (py_str 0), RunOnce], has_objective := True\<rparr>)"
  by (simp add: solveAll_def solveAll_loop.simps init_if_needed_def set_timeout_def set_options_def xct_def
      xstate_init_def reply_unsat_def Let_def)

text \<open>An instance on a new session, for \<^verbatim>\<open>solve\<close> and for a \<^verbatim>\<open>solveAll\<close> that returns.\<close>

theorem solve_marks_objective_witness:
  "\<not> has_objective xstate_init
   \<and> prefix (xct_calls xstate_init @ [Init [] []]) (xct_calls (snd (solve xstate_init None None [] reply_unsat)))
   \<and> fst (objective (snd (solve xstate_init None None [] reply_unsat)) (Atom (Var (IntVarImpl ''x'' 0 5))) [] [] [] True)
        = Inl AssertionError
   \<and> fst (objective (snd (the (solveAll xstate_init None None [] [reply_unsat]))) (Atom (Var (IntVarImpl ''x'' 0 5))) [] [] [] True)
        = Inl AssertionError"
proof -
  have h: "\<not> has_objective xstate_init" by (simp add: xstate_init_def)
  from solve_marks_objective[OF h, of None None "[]" reply_unsat "Atom (Var (IntVarImpl ''x'' 0 5))" "[]" "[]" "[]" True
      None None "[]" "[reply_unsat]"]
  show ?thesis using h by (simp add: solveAll_example)
qed

subsection \<open>The threshold of the string variants\<close>

lemma emits_only_iff: "emits_only P s s' = (\<exists>new. xct_calls s' = xct_calls s @ new \<and> list_all P new)"
  by (auto simp: emits_only_def prefix_def)

lemma emits_only_refl: "emits_only P s s"
  by (simp add: emits_only_iff)

lemma emits_only_trans: "emits_only P s t \<Longrightarrow> emits_only P t u \<Longrightarrow> emits_only P s u"
  by (auto simp: emits_only_iff)


lemma emits_only_mono: "emits_only P s s' \<Longrightarrow> (\<And>c. P c \<Longrightarrow> Q c) \<Longrightarrow> emits_only Q s s'"
  by (auto simp: emits_only_iff list_all_iff)

lemma foldl_max_over: "over_1e18 (foldl max x xs) = (\<exists>y\<in>set (x # xs). over_1e18 y)"
  by (induction xs arbitrary: x) (auto simp: over_1e18_def max_def)

lemma foldl_py_max:
  "foldl (\<lambda>m y. if num_gt y m then y else m) (PyNum x) (map PyNum xs) = PyNum (foldl max x xs)"
  by (induction xs arbitrary: x) (auto simp: num_gt_def max_def)

lemma py_max_py_nums: "py_max (PyNum x # map PyNum xs) = Inr (PyNum (foldl max x xs))"
  by (simp add: foldl_py_max)

lemma py_max_abs:
  "py_max (map num_abs (py_nums cs)) = (if cs = [] then Inl ValueError else Inr (PyNum (foldl max \<bar>hd cs\<bar> (map abs (tl cs)))))"
proof (cases cs)
  case Nil
  then show ?thesis by (simp add: py_nums_def)
next
  case (Cons c r)
  have "map num_abs (py_nums (c # r)) = PyNum \<bar>c\<bar> # map PyNum (map abs r)"
    by (simp add: py_nums_def)
  with Cons show ?thesis by (simp only: py_max_py_nums) simp
qed

lemma py_max_list:
  "py_max [PyNum m, PyNum a] = Inr (PyNum (foldl max m [a]))"
  "py_max [PyNum m, PyNum a, PyNum b] = Inr (PyNum (foldl max m [a, b]))"
  using py_max_py_nums[of m "[a]"] py_max_py_nums[of m "[a, b]"] by simp_all

lemma sent_py_nums:
  "map num_str (py_nums cs) = map str_num cs" "map fix_item (py_nums cs) = map XInt cs"
  "num_str (PyNum x) = str_num x"
  by (simp_all add: py_nums_def num_str_def)

lemma py_max_abs_over: "cs \<noteq> [] \<Longrightarrow> over_1e18 (foldl max \<bar>hd cs\<bar> (map abs (tl cs))) = (\<exists>c\<in>set cs. over_1e18 \<bar>c\<bar>)"
  by (cases cs) (auto simp: foldl_max_over)

lemma over_zero: "\<not> over_1e18 \<bar>0\<bar>"
  by (simp add: over_1e18_def)

lemma as_sent_simps: "as_sent True x = str_num x" "as_sent False x = XInt x"
  by (simp_all add: as_sent_def num_str_def)

lemma as_sent_fun: "as_sent True = str_num" "as_sent False = XInt"
  by (simp_all add: as_sent_def num_str_def fun_eq_iff)

lemma xval_as_sent: "xval (as_sent k x) = x"
  by (simp add: as_sent_def num_str_def xval_str_num)

lemma is_str_as_sent: "is_str (as_sent k x) = k"
  by (simp add: as_sent_def num_str_def str_num_def)

lemma constr_max:
  assumes "cs \<noteq> []"
  shows "py_max (map num_abs (py_nums cs)) = Inr (PyNum (foldl max \<bar>hd cs\<bar> (map abs (tl cs))))"
  using assms by (simp add: py_max_abs)

lemma bound_abs: "num_abs (if u then PyNum b else PyNum 0) = PyNum \<bar>if u then b else 0\<bar>"
  by simp

lemma if_as_sent: "(if k then f str_num else f XInt) = f (as_sent k)"
  by (cases k) (simp_all add: as_sent_fun)

lemma add_xct_constr_eq:
  "add_xct_constr s (py_nums cs) vs ul (PyNum lb) uu (PyNum ub) =
     (if cs = [] then (Inl ValueError, s)
      else (let k = ((\<exists>c\<in>set cs. over_1e18 \<bar>c\<bar>) \<or> (ul \<and> over_1e18 \<bar>lb\<bar>) \<or> (uu \<and> over_1e18 \<bar>ub\<bar>))
            in (Inr (), xct (AddConstraint (map (as_sent k) cs) vs ul (as_sent k lb) uu (as_sent k ub)) s)))"
proof (cases "cs = []")
  case True
  then show ?thesis by (simp add: add_xct_constr_def py_nums_def)
next
  case False
  let ?m = "foldl max \<bar>hd cs\<bar> (map abs (tl cs))"
  let ?k = "(\<exists>c\<in>set cs. over_1e18 \<bar>c\<bar>) \<or> (ul \<and> over_1e18 \<bar>lb\<bar>) \<or> (uu \<and> over_1e18 \<bar>ub\<bar>)"
  have k: "over_1e18 (foldl max ?m [\<bar>if ul then lb else 0\<bar>, \<bar>if uu then ub else 0\<bar>]) = ?k"
    unfolding foldl_max_over using py_max_abs_over[OF False] over_zero by auto
  have mx: "py_max [PyNum ?m, num_abs (if ul then PyNum lb else PyNum 0), num_abs (if uu then PyNum ub else PyNum 0)]
      = Inr (PyNum (foldl max ?m [\<bar>if ul then lb else 0\<bar>, \<bar>if uu then ub else 0\<bar>]))"
    unfolding bound_abs by (rule py_max_list(2))
  have "add_xct_constr s (py_nums cs) vs ul (PyNum lb) uu (PyNum ub) =
      (if ?k then (Inr (), xct (AddConstraint (map str_num cs) vs ul (str_num lb) uu (str_num ub)) s)
       else (Inr (), xct (AddConstraint (map XInt cs) vs ul (XInt lb) uu (XInt ub)) s))"
    by (simp only: add_xct_constr_def constr_max[OF False] sum.case mx gt_1e18.simps k sent_py_nums fix_item.simps)
  also have "\<dots> = (Inr (), xct (AddConstraint (map (as_sent ?k) cs) vs ul (as_sent ?k lb) uu (as_sent ?k ub)) s)"
    by (rule if_as_sent[where f = "\<lambda>g. (Inr (), xct (AddConstraint (map g cs) vs ul (g lb) uu (g ub)) s)"])
  finally show ?thesis using False by (simp only: Let_def if_False)
qed

lemma reif_max:
  "cs \<noteq> [] \<Longrightarrow> py_max [PyNum (foldl max \<bar>hd cs\<bar> (map abs (tl cs))), num_abs (PyNum b)]
      = Inr (PyNum (foldl max (foldl max \<bar>hd cs\<bar> (map abs (tl cs))) [\<bar>b\<bar>]))"
  unfolding num_abs.simps by (rule py_max_list(1))

lemma reif_over:
  "cs \<noteq> [] \<Longrightarrow> over_1e18 (foldl max (foldl max \<bar>hd cs\<bar> (map abs (tl cs))) [\<bar>b\<bar>])
      = ((\<exists>c\<in>set cs. over_1e18 \<bar>c\<bar>) \<or> over_1e18 \<bar>b\<bar>)"
  unfolding foldl_max_over using py_max_abs_over[of cs] by auto


lemma add_xct_reif_right_eq:
  "add_xct_reif_right s h (py_nums cs) vs (PyNum b) =
     (if cs = [] then (Inl ValueError, s)
      else (let k = ((\<exists>c\<in>set cs. over_1e18 \<bar>c\<bar>) \<or> over_1e18 \<bar>b\<bar>)
            in (Inr (), xct (AddRightReification h (map (as_sent k) cs) vs (as_sent k b)) s)))"
proof (cases "cs = []")
  case True
  then show ?thesis by (simp add: add_xct_reif_right_def py_nums_def)
next
  case False
  let ?k = "(\<exists>c\<in>set cs. over_1e18 \<bar>c\<bar>) \<or> over_1e18 \<bar>b\<bar>"
  have "add_xct_reif_right s h (py_nums cs) vs (PyNum b) =
      (if ?k then (Inr (), xct (AddRightReification h (map str_num cs) vs (str_num b)) s)
       else (Inr (), xct (AddRightReification h (map XInt cs) vs (XInt b)) s))"
    by (simp only: add_xct_reif_right_def constr_max[OF False] sum.case reif_max[OF False] gt_1e18.simps
        reif_over[OF False] sent_py_nums fix_item.simps)
  also have "\<dots> = (Inr (), xct (AddRightReification h (map (as_sent ?k) cs) vs (as_sent ?k b)) s)"
    by (rule if_as_sent[where f = "\<lambda>g. (Inr (), xct (AddRightReification h (map g cs) vs (g b)) s)"])
  finally show ?thesis using False by (simp only: Let_def if_False)
qed

lemma add_xct_reif_left_eq:
  "add_xct_reif_left s h (py_nums cs) vs (PyNum b) =
     (if cs = [] then (Inl ValueError, s)
      else (let k = ((\<exists>c\<in>set cs. over_1e18 \<bar>c\<bar>) \<or> over_1e18 \<bar>b\<bar>)
            in (Inr (), xct (AddLeftReification h (map (as_sent k) cs) vs (as_sent k b)) s)))"
proof (cases "cs = []")
  case True
  then show ?thesis by (simp add: add_xct_reif_left_def py_nums_def)
next
  case False
  let ?k = "(\<exists>c\<in>set cs. over_1e18 \<bar>c\<bar>) \<or> over_1e18 \<bar>b\<bar>"
  have "add_xct_reif_left s h (py_nums cs) vs (PyNum b) =
      (if ?k then (Inr (), xct (AddLeftReification h (map str_num cs) vs (str_num b)) s)
       else (Inr (), xct (AddLeftReification h (map XInt cs) vs (XInt b)) s))"
    by (simp only: add_xct_reif_left_def constr_max[OF False] sum.case reif_max[OF False] gt_1e18.simps
        reif_over[OF False] sent_py_nums fix_item.simps)
  also have "\<dots> = (Inr (), xct (AddLeftReification h (map (as_sent ?k) cs) vs (as_sent ?k b)) s)"
    by (rule if_as_sent[where f = "\<lambda>g. (Inr (), xct (AddLeftReification h (map g cs) vs (g b)) s)"])
  finally show ?thesis using False by (simp only: Let_def if_False)
qed






lemma solver_var_plain_declares: "solver_var_plain s v = (r, s') \<Longrightarrow> emits_only declared_ok s s'"
  by (auto simp: solver_var_plain_def emits_only_iff xct_def Let_def declared_ok_def threshold_ok_def over_1e18_def
      xval_str_num is_str_as_sent[of True, unfolded as_sent_fun]
      split: option.splits cpm_var.splits if_splits)


lemma solver_var_declares: "solver_var s a = (r, s') \<Longrightarrow> emits_only declared_ok s s'"
  by (induction s a rule: solver_var.induct)
     (auto split: prod.splits sum.splits dest: solver_var_plain_declares simp: emits_only_refl)

lemma sum_loop_declares: "sum_loop s xs cs vs r = (res, s') \<Longrightarrow> emits_only declared_ok s s'"
  by (induction s xs cs vs r rule: sum_loop.induct)
     (auto split: prod.splits sum.splits dest: solver_var_declares solver_var_plain_declares
           intro: emits_only_trans simp: emits_only_refl)

lemma wsum_loop_declares: "wsum_loop s xs cs vs r = (res, s') \<Longrightarrow> emits_only declared_ok s s'"
  by (induction s xs cs vs r rule: wsum_loop.induct)
     (auto split: prod.splits sum.splits dest: solver_var_declares solver_var_plain_declares
           intro: emits_only_trans simp: emits_only_refl)

lemma numexpr_rhs_declares: "numexpr_rhs s e = (res, s') \<Longrightarrow> emits_only declared_ok s s'"
  by (induction s e rule: numexpr_rhs.induct)
     (auto split: prod.splits sum.splits dest: solver_var_declares solver_var_plain_declares simp: emits_only_refl)

lemma numexpr_lhs_declares: "numexpr_lhs s e cs vs r = (res, s') \<Longrightarrow> emits_only declared_ok s s'"
  by (induction s e cs vs r rule: numexpr_lhs.induct)
     (auto split: prod.splits sum.splits list.splits
           dest: solver_var_declares solver_var_plain_declares sum_loop_declares wsum_loop_declares
           intro: emits_only_trans simp: emits_only_refl)

lemma make_numexpr_declares: "make_numexpr s lhs rhs = (res, s') \<Longrightarrow> emits_only declared_ok s s'"
  by (auto simp: make_numexpr_def split: prod.splits sum.splits
      dest: numexpr_rhs_declares numexpr_lhs_declares intro: emits_only_trans)



lemma emits_only_snd: "f = (r, s') \<Longrightarrow> emits_only P s (snd f) \<Longrightarrow> emits_only P s s'"
  by simp








lemma post_small_example:
  "post_constraint xstate_init
      (Comparison LE (WSum [1000000000000000000, 3] [Var (IntVarImpl ''x'' 0 5), Var (BoolVarImpl ''b'')]) (Atom (Num 7)))
    = (Inr (), xstate_init\<lparr>xct_calls := [AddVariable ''x'' (XInt 0) (XInt 5), AddVariable ''b'' (XInt 0) (XInt 1),
          AddConstraint [XInt 1000000000000000000, XInt 3] [''x'', ''b''] False (XInt 0) True (XInt 7)],
        varmap := [(IntVarImpl ''x'' 0 5, ''x''), (BoolVarImpl ''b'', ''b'')]\<rparr>)"
  by (simp add: make_numexpr_def solver_var_plain_def add_xct_constr_eq as_sent_def num_str_def xct_def xstate_init_def over_1e18_def Let_def)


subsection \<open>Normalisation keeps the value of the comparison\<close>

lemma lin_Nil: "lin \<sigma> [] vs = 0" "lin \<sigma> cs [] = 0"
  by (simp_all add: lin_def)

lemma lin_append: "length cs = length vs \<Longrightarrow> lin \<sigma> (cs @ cs') (vs @ vs') = lin \<sigma> cs vs + lin \<sigma> cs' vs'"
  by (simp add: lin_def)

lemma lin_single: "lin \<sigma> [c] [v] = c * \<sigma> v"
  by (simp add: lin_def)

lemma lin_uminus: "lin \<sigma> (map uminus cs) vs = - lin \<sigma> cs vs"
proof (induction cs arbitrary: vs)
  case Nil
  then show ?case by (simp add: lin_def)
next
  case (Cons c cs)
  then show ?case by (cases vs) (simp_all add: lin_def)
qed

lemma map_xval_as_sent: "map xval (map (as_sent k) cs) = cs"
  by (induction cs) (simp_all add: xval_as_sent)

lemma varmap_ok_lookup: "varmap_ok s \<Longrightarrow> map_of (varmap s) v = Some h \<Longrightarrow> h = var_name v"
  by (auto simp: varmap_ok_def list_all_iff dest!: map_of_SomeD)

lemma solver_var_plain_ok:
  "solver_var_plain s v = (r, s') \<Longrightarrow> varmap_ok s \<Longrightarrow> varmap_ok s' \<and> (\<forall>h. r = Inr h \<longrightarrow> h = var_name v)"
  by (auto simp: solver_var_plain_def Let_def xct_def varmap_ok_def list_all_iff
      split: option.splits cpm_var.splits if_splits dest!: map_of_SomeD)

lemma solver_var_ok:
  assumes "solver_var s a = (r, s')" "varmap_ok s"
  shows "varmap_ok s' \<and> (\<forall>h. r = Inr h \<longrightarrow> \<sigma> h = atom_val \<sigma> a)"
proof (cases a)
  case (Num n)
  with assms show ?thesis by auto
next
  case (Var v)
  with assms show ?thesis
    by (cases v) (auto split: prod.splits sum.splits dest: solver_var_plain_ok)
qed

lemma sum_loop_ok:
  "sum_loop s xs cs vs r = (Inr (cs', vs', r'), s') \<Longrightarrow> varmap_ok s \<Longrightarrow> length cs = length vs \<Longrightarrow>
     varmap_ok s' \<and> length cs' = length vs'
     \<and> lin \<sigma> cs' vs' - r' = lin \<sigma> cs vs - r + sum_list (map (atom_val \<sigma>) xs)"
proof (induction s xs cs vs r rule: sum_loop.induct)
  case (1 s cs vs r)
  then show ?case by simp
next
  case (2 s n xs cs vs r)
  then show ?case by simp
next
  case (3 s v xs cs vs r)
  from "3.prems"(1) obtain h t where sv: "solver_var s (Var v) = (Inr h, t)"
    and rec: "sum_loop t xs (cs @ [1]) (vs @ [h]) r = (Inr (cs', vs', r'), s')"
    by (simp del: solver_var.simps split: prod.splits sum.splits)
  from solver_var_ok[OF sv "3.prems"(2), of \<sigma>] have ok: "varmap_ok t" and h: "\<sigma> h = atom_val \<sigma> (Var v)" by simp_all
  from "3.IH"[OF sv[symmetric] refl rec ok] "3.prems"(3)
  have "varmap_ok s' \<and> length cs' = length vs'
     \<and> lin \<sigma> cs' vs' - r' = lin \<sigma> (cs @ [1]) (vs @ [h]) - r + sum_list (map (atom_val \<sigma>) xs)" by simp
  then show ?case using "3.prems"(3) h by (simp add: lin_append lin_single del: atom_val.simps)
qed

lemma wsum_loop_ok:
  "wsum_loop s xs cs vs r = (Inr (cs', vs', r'), s') \<Longrightarrow> varmap_ok s \<Longrightarrow> length cs = length vs \<Longrightarrow>
     varmap_ok s' \<and> length cs' = length vs'
     \<and> lin \<sigma> cs' vs' - r' = lin \<sigma> cs vs - r + sum_list (map (\<lambda>(c, x). c * atom_val \<sigma> x) xs)"
proof (induction s xs cs vs r rule: wsum_loop.induct)
  case (1 s cs vs r)
  then show ?case by simp
next
  case (2 s c n xs cs vs r)
  then show ?case by simp
next
  case (3 s c v xs cs vs r)
  from "3.prems"(1) obtain h t where sv: "solver_var s (Var v) = (Inr h, t)"
    and rec: "wsum_loop t xs (cs @ [c]) (vs @ [h]) r = (Inr (cs', vs', r'), s')"
    by (simp del: solver_var.simps split: prod.splits sum.splits)
  from solver_var_ok[OF sv "3.prems"(2), of \<sigma>] have ok: "varmap_ok t" and h: "\<sigma> h = atom_val \<sigma> (Var v)" by simp_all
  from "3.IH"[OF sv[symmetric] refl rec ok] "3.prems"(3)
  have "varmap_ok s' \<and> length cs' = length vs'
     \<and> lin \<sigma> cs' vs' - r' = lin \<sigma> (cs @ [c]) (vs @ [h]) - r + sum_list (map (\<lambda>(c, x). c * atom_val \<sigma> x) xs)" by simp
  then show ?case using "3.prems"(3) h by (simp add: lin_append lin_single del: atom_val.simps)
qed

lemma numexpr_rhs_ok:
  "numexpr_rhs s e = (Inr (cs, vs, r), s') \<Longrightarrow> varmap_ok s \<Longrightarrow>
     varmap_ok s' \<and> length cs = length vs \<and> lin \<sigma> cs vs - r = - expr_val \<sigma> e"
proof (induction s e rule: numexpr_rhs.induct)
  case (1 s n)
  then show ?case by (auto simp: lin_Nil)
next
  case (2 s v)
  from "2.prems"(1) obtain h where sv: "solver_var s (Var v) = (Inr h, s')" and e: "cs = [-1]" "vs = [h]" "r = 0"
    by (auto simp del: solver_var.simps split: prod.splits sum.splits)
  from solver_var_ok[OF sv "2.prems"(2), of \<sigma>] e show ?case by (simp add: lin_single del: atom_val.simps)
qed simp_all

lemma numexpr_lhs_ok:
  "numexpr_lhs s e cs vs r = (Inr (cs', vs', r'), s') \<Longrightarrow> varmap_ok s \<Longrightarrow> length cs = length vs \<Longrightarrow>
     varmap_ok s' \<and> length cs' = length vs' \<and> lin \<sigma> cs' vs' - r' = lin \<sigma> cs vs - r + expr_val \<sigma> e"
proof (induction s e cs vs r rule: numexpr_lhs.induct)
  case (1 s n cs vs r)
  then show ?case by auto
next
  case (2 s v cs vs r)
  from "2.prems"(1) obtain h where sv: "solver_var s (Var v) = (Inr h, s')" and e: "cs' = cs @ [1]" "vs' = vs @ [h]" "r' = r"
    by (auto simp del: solver_var.simps split: prod.splits sum.splits)
  from solver_var_ok[OF sv "2.prems"(2), of \<sigma>] e "2.prems"(3) show ?case
    by (simp add: lin_append lin_single del: atom_val.simps)
next
  case (3 s args cs vs r)
  then show ?case using sum_loop_ok[of s args cs vs r cs' vs' r' s' \<sigma>] by simp
next
  case (4 s ws args cs vs r)
  then show ?case using wsum_loop_ok[of s "zip ws args" cs vs r cs' vs' r' s' \<sigma>] by simp
next
  case (5 s args cs vs r)
  from "5.prems"(1) obtain a b ha t hb where args: "args = [a, b]"
    and sa: "solver_var s a = (Inr ha, t)" and sb: "solver_var t b = (Inr hb, s')"
    and e: "cs' = cs @ [1, -1]" "vs' = vs @ [ha, hb]" "r' = r"
    by (auto simp del: solver_var.simps split: list.splits prod.splits sum.splits)
  from solver_var_ok[OF sa "5.prems"(2), of \<sigma>] have ok: "varmap_ok t" and ha: "\<sigma> ha = atom_val \<sigma> a" by simp_all
  from solver_var_ok[OF sb ok, of \<sigma>] have ok': "varmap_ok s'" and hb: "\<sigma> hb = atom_val \<sigma> b" by simp_all
  have "lin \<sigma> [1, -1] [ha, hb] = \<sigma> ha - \<sigma> hb" by (simp add: lin_def)
  with args e ok' ha hb "5.prems"(3) show ?case by (simp add: lin_append)
next
  case (6 s nm cs vs r)
  then show ?case by simp
qed

lemma make_numexpr_ok:
  assumes "make_numexpr s lhs rhs = (Inr (cs, vs, r), s')" "varmap_ok s"
  shows "varmap_ok s' \<and> length cs = length vs \<and> lin \<sigma> cs vs - r = expr_val \<sigma> lhs - expr_val \<sigma> rhs"
proof -
  from assms(1) obtain cs0 vs0 r0 t where r: "numexpr_rhs s rhs = (Inr (cs0, vs0, r0), t)"
    and l: "numexpr_lhs t lhs cs0 vs0 r0 = (Inr (cs, vs, r), s')"
    by (auto simp: make_numexpr_def split: prod.splits sum.splits)
  from numexpr_rhs_ok[OF r assms(2), of \<sigma>] numexpr_lhs_ok[OF l, of \<sigma>] show ?thesis by simp
qed

lemma new_calls_xct: "new_calls s (xct c s) = [c]" "new_calls s (xct c2 (xct c1 s)) = [c1, c2]"
  by (simp_all add: new_calls_def xct_def)

lemma prefix_xct: "prefix (xct_calls s) (xct_calls (xct c s))" "prefix (xct_calls s) (xct_calls (xct c2 (xct c1 s)))"
  by (simp_all add: xct_def)

subsection \<open>Comparisons and indicator constraints\<close>

lemma native_sent:
  "native_form (AddConstraint (map (as_sent k) cs) vs ul (as_sent k lb) uu (as_sent k ub))
     = AddConstraint (map XInt cs) vs ul (XInt lb) uu (XInt ub)"
  "native_form (AddRightReification h (map (as_sent k) cs) vs (as_sent k b)) = Right_reif h cs vs b"
  "native_form (AddLeftReification h (map (as_sent k) cs) vs (as_sent k b)) = Left_reif h cs vs b"
  by (simp_all add: xval_as_sent Right_reif_def Left_reif_def comp_def)

lemma holds_sent:
  "holds \<sigma> (AddConstraint (map (as_sent k) cs) vs ul (as_sent k lb) uu (as_sent k ub))
     = ((ul \<longrightarrow> lb \<le> lin \<sigma> cs vs) \<and> (uu \<longrightarrow> lin \<sigma> cs vs \<le> ub))"
  "holds \<sigma> (AddRightReification h (map (as_sent k) cs) vs (as_sent k b)) = (\<sigma> h = 1 \<longrightarrow> b \<le> lin \<sigma> cs vs)"
  "holds \<sigma> (AddLeftReification h (map (as_sent k) cs) vs (as_sent k b)) = (b \<le> lin \<sigma> cs vs \<longrightarrow> \<sigma> h = 1)"
  by (simp_all add: xval_as_sent comp_def)

text \<open>
  Claim C2, as amended. For a comparison with operator \<^verbatim>\<open><=\<close>, \<^verbatim>\<open>>=\<close> or \<^verbatim>\<open>==\<close>
  whose sides normalise to a triple with at least one coefficient, in a session whose
  cache maps every variable to its name, \<^verbatim>\<open>_post_constraint\<close> succeeds; after the
  variable declarations of the normalisation it adds exactly one bounded linear
  constraint, whose numbers are those of the quadruple of the operator, and the
  constraint holds under exactly the assignments under which the comparison holds.
\<close>

theorem comparison_compiled:
  assumes ok: "varmap_ok s"
    and norm: "make_numexpr s lhs rhs = (Inr (cs, vs, r), s1)"
    and ne: "cs \<noteq> []"
    and opr: "opr = LE \<or> opr = GE \<or> opr = EQ"
  shows "\<exists>c. post_constraint s (Comparison opr lhs rhs) = (Inr (), xct c s1)
           \<and> emits_only is_AddVariable s s1
           \<and> [native_form c] = comparison_table opr cs vs r
           \<and> (\<forall>\<sigma>. holds \<sigma> c = cons_holds \<sigma> (Comparison opr lhs rhs))"
proof -
  have decl: "emits_only is_AddVariable s s1"
    using make_numexpr_declares[OF norm] by (rule emits_only_mono) (simp add: declared_ok_def)
  have val: "\<And>\<sigma>. lin \<sigma> cs vs - r = expr_val \<sigma> lhs - expr_val \<sigma> rhs"
    using make_numexpr_ok[OF norm ok] by simp
  from opr show ?thesis
  proof (elim disjE)
    assume o: "opr = LE"
    let ?k = "(\<exists>c\<in>set cs. over_1e18 \<bar>c\<bar>) \<or> over_1e18 \<bar>r\<bar>"
    let ?c = "AddConstraint (map (as_sent ?k) cs) vs False (as_sent ?k 0) True (as_sent ?k r)"
    have "post_constraint s (Comparison opr lhs rhs) = (Inr (), xct ?c s1)"
      using norm ne o by (simp add: add_xct_constr_eq Let_def)
    moreover have "[native_form ?c] = comparison_table opr cs vs r"
      unfolding native_sent using o by simp
    moreover have "\<forall>\<sigma>. holds \<sigma> ?c = cons_holds \<sigma> (Comparison opr lhs rhs)"
    proof
      fix \<sigma>
      show "holds \<sigma> ?c = cons_holds \<sigma> (Comparison opr lhs rhs)"
        unfolding holds_sent using o val[of \<sigma>] by auto
    qed
    ultimately show ?thesis using decl by blast
  next
    assume o: "opr = GE"
    let ?k = "(\<exists>c\<in>set cs. over_1e18 \<bar>c\<bar>) \<or> over_1e18 \<bar>r\<bar>"
    let ?c = "AddConstraint (map (as_sent ?k) cs) vs True (as_sent ?k r) False (as_sent ?k 0)"
    have "post_constraint s (Comparison opr lhs rhs) = (Inr (), xct ?c s1)"
      using norm ne o by (simp add: add_xct_constr_eq Let_def)
    moreover have "[native_form ?c] = comparison_table opr cs vs r"
      unfolding native_sent using o by simp
    moreover have "\<forall>\<sigma>. holds \<sigma> ?c = cons_holds \<sigma> (Comparison opr lhs rhs)"
    proof
      fix \<sigma>
      show "holds \<sigma> ?c = cons_holds \<sigma> (Comparison opr lhs rhs)"
        unfolding holds_sent using o val[of \<sigma>] by auto
    qed
    ultimately show ?thesis using decl by blast
  next
    assume o: "opr = EQ"
    let ?k = "(\<exists>c\<in>set cs. over_1e18 \<bar>c\<bar>) \<or> over_1e18 \<bar>r\<bar>"
    let ?c = "AddConstraint (map (as_sent ?k) cs) vs True (as_sent ?k r) True (as_sent ?k r)"
    have "post_constraint s (Comparison opr lhs rhs) = (Inr (), xct ?c s1)"
      using norm ne o by (simp add: add_xct_constr_eq Let_def)
    moreover have "[native_form ?c] = comparison_table opr cs vs r"
      unfolding native_sent using o by simp
    moreover have "\<forall>\<sigma>. holds \<sigma> ?c = cons_holds \<sigma> (Comparison opr lhs rhs)"
    proof
      fix \<sigma>
      show "holds \<sigma> ?c = cons_holds \<sigma> (Comparison opr lhs rhs)"
        unfolding holds_sent using o val[of \<sigma>] by auto
    qed
    ultimately show ?thesis using decl by blast
  qed
qed


lemma indicator_emit_exact:
  assumes ne: "cs \<noteq> []" and opr: "opr = LE \<or> opr = GE \<or> opr = EQ"
  shows "fst (indicator_emit s h b opr cs vs r) = Inr ()
     \<and> prefix (xct_calls s) (xct_calls (snd (indicator_emit s h b opr cs vs r)))
     \<and> map native_form (new_calls s (snd (indicator_emit s h b opr cs vs r))) = indicator_table b opr h cs vs r
     \<and> (\<forall>\<sigma>. list_all (holds \<sigma>) (new_calls s (snd (indicator_emit s h b opr cs vs r)))
            = ((if b then \<sigma> h = 1 else \<sigma> h \<noteq> 1) \<longrightarrow> cmp_holds opr (lin \<sigma> cs vs) r))"
  using opr ne
  by (cases b)
     (auto simp: indicator_emit_def add_xct_reif_right_eq add_xct_reif_left_eq Let_def new_calls_xct prefix_xct
        comp_def xval_as_sent Right_reif_def Left_reif_def lin_uminus)

lemma boolvar_handle:
  assumes "varmap_ok s"
  shows "\<exists>s'. solver_var_plain s (BoolVarImpl n) = (Inr n, s') \<and> varmap_ok s' \<and> emits_only declared_ok s s'"
proof -
  obtain q t where q: "solver_var_plain s (BoolVarImpl n) = (q, t)" by (cases "solver_var_plain s (BoolVarImpl n)")
  then have "\<exists>h. q = Inr h" by (auto simp: solver_var_plain_def Let_def split: option.splits)
  with solver_var_plain_ok[OF q assms] solver_var_plain_declares[OF q] q show ?thesis by auto
qed

lemma indicator_cond_exact:
  assumes "varmap_ok s" "is_BoolVarImpl cond"
  shows "\<exists>s'. indicator_cond s cond = (Inr (cond_name cond, cond_direct cond), s') \<and> emits_only declared_ok s s'"
proof -
  from assms(2) obtain n where "cond = Atom (Var (BoolVarImpl n)) \<or> cond = Atom (Var (NegBoolView n))"
    by (induction cond rule: is_BoolVarImpl.induct) auto
  then show ?thesis using boolvar_handle[OF assms(1), of n] by auto
qed

text \<open>
  Claim C1, as amended. For an implication whose condition is a Boolean variable or a
  negated view, whose comparison has operator \<^verbatim>\<open><=\<close>, \<^verbatim>\<open>>=\<close> or \<^verbatim>\<open>==\<close>, a left
  side that is a variable, a \<^verbatim>\<open>sum\<close> or a \<^verbatim>\<open>wsum\<close>, and sides that normalise to a
  triple with at least one coefficient, \<^verbatim>\<open>_post_constraint\<close> succeeds; after the
  variable declarations it adds exactly the reifications of the row of the table, and
  these hold together under exactly the assignments under which the implication holds.
\<close>

theorem indicator_compiled:
  assumes ok: "varmap_ok s"
    and cond: "is_BoolVarImpl cond"
    and shape: "indicator_lhs_check lhs = None"
    and norm: "make_numexpr s lhs rhs = (Inr (cs, vs, r), s1)"
    and ne: "cs \<noteq> []"
    and opr: "opr = LE \<or> opr = GE \<or> opr = EQ"
  shows "\<exists>s2 s3. indicator_cond s1 cond = (Inr (cond_name cond, cond_direct cond), s2)
           \<and> emits_only is_AddVariable s s2
           \<and> post_constraint s (Implication cond (Comparison opr lhs rhs)) = (Inr (), s3)
           \<and> prefix (xct_calls s2) (xct_calls s3)
           \<and> map native_form (new_calls s2 s3) = indicator_table (cond_direct cond) opr (cond_name cond) cs vs r
           \<and> (\<forall>\<sigma>. list_all (holds \<sigma>) (new_calls s2 s3)
                  = cons_holds \<sigma> (Implication cond (Comparison opr lhs rhs)))"
proof -
  have ok1: "varmap_ok s1" and val: "\<And>\<sigma>. lin \<sigma> cs vs - r = expr_val \<sigma> lhs - expr_val \<sigma> rhs"
    using make_numexpr_ok[OF norm ok] by simp_all
  from indicator_cond_exact[OF ok1 cond] obtain s2
    where ic: "indicator_cond s1 cond = (Inr (cond_name cond, cond_direct cond), s2)"
      and d2: "emits_only declared_ok s1 s2" by blast
  have decl: "emits_only is_AddVariable s s2"
    using emits_only_trans[OF make_numexpr_declares[OF norm] d2]
    by (rule emits_only_mono) (simp add: declared_ok_def)
  let ?res = "indicator_emit s2 (cond_name cond) (cond_direct cond) opr cs vs r"
  note ex = indicator_emit_exact[OF ne opr, of s2 "cond_name cond" "cond_direct cond" vs r]
  have res: "?res = (Inr (), snd ?res)"
    using ex by (cases ?res) simp
  have "post_constraint s (Implication cond (Comparison opr lhs rhs)) = ?res"
    using cond shape norm ic by simp
  with res have post: "post_constraint s (Implication cond (Comparison opr lhs rhs)) = (Inr (), snd ?res)"
    by simp
  have sem: "\<forall>\<sigma>. list_all (holds \<sigma>) (new_calls s2 (snd ?res))
                  = cons_holds \<sigma> (Implication cond (Comparison opr lhs rhs))"
  proof
    fix \<sigma>
    have c: "cond_true \<sigma> cond = (if cond_direct cond then \<sigma> (cond_name cond) = 1 else \<sigma> (cond_name cond) \<noteq> 1)"
      using cond by (induction cond rule: is_BoolVarImpl.induct) auto
    have v: "cmp_holds opr (lin \<sigma> cs vs) r = cmp_holds opr (expr_val \<sigma> lhs) (expr_val \<sigma> rhs)"
      using opr val[of \<sigma>] by auto
    show "list_all (holds \<sigma>) (new_calls s2 (snd ?res)) = cons_holds \<sigma> (Implication cond (Comparison opr lhs rhs))"
      using ex c v by simp
  qed
  from ic decl post ex sem show ?thesis by blast
qed

text \<open>The comparison \<^verbatim>\<open>3 <= 5\<close> normalises to a triple without coefficients; \<^verbatim>\<open>_add_xct_constr\<close> then raises \<^verbatim>\<open>ValueError\<close> and nothing is posted.\<close>

theorem comparison_without_variables_counterexample:
  "make_numexpr xstate_init (Atom (Num 3)) (Atom (Num 5)) = (Inr ([], [], 2), xstate_init)
   \<and> post_constraint xstate_init (Comparison LE (Atom (Num 3)) (Atom (Num 5))) = (Inl ValueError, xstate_init)"
  by (simp add: make_numexpr_def add_xct_constr_eq as_sent_def num_str_def)

text \<open>The implication \<^verbatim>\<open>a -> (sum([2]) == 2)\<close> normalises to a triple without coefficients; after declaring \<open>a\<close>, \<^verbatim>\<open>_add_xct_reif_right\<close> raises \<^verbatim>\<open>ValueError\<close> and no reification is posted.\<close>

theorem indicator_without_variables_counterexample:
  "make_numexpr xstate_init (Sum [Num 2]) (Atom (Num 2)) = (Inr ([], [], 0), xstate_init)
   \<and> post_constraint xstate_init
        (Implication (Atom (Var (BoolVarImpl ''a''))) (Comparison EQ (Sum [Num 2]) (Atom (Num 2))))
      = (Inl ValueError,
         xstate_init\<lparr>xct_calls := [AddVariable ''a'' (XInt 0) (XInt 1)], varmap := [(BoolVarImpl ''a'', ''a'')]\<rparr>)"
  by (simp add: make_numexpr_def indicator_emit_def add_xct_reif_right_eq as_sent_def num_str_def solver_var_plain_def xct_def
      xstate_init_def Let_def)

lemma varmap_ok_init: "varmap_ok xstate_init"
  by (simp add: varmap_ok_def xstate_init_def)

lemma comparison_example_norm:
  "make_numexpr xstate_init (Sum [Var (IntVarImpl ''x'' 0 5), Num 1, Var (IntVarImpl ''y'' 0 5)]) (Atom (Num 5))
     = (Inr ([1, 1], [''x'', ''y''], 4),
        xstate_init\<lparr>xct_calls := [AddVariable ''x'' (XInt 0) (XInt 5), AddVariable ''y'' (XInt 0) (XInt 5)],
           varmap := [(IntVarImpl ''x'' 0 5, ''x''), (IntVarImpl ''y'' 0 5, ''y'')]\<rparr>)"
  by (simp add: make_numexpr_def solver_var_plain_def xct_def xstate_init_def over_1e18_def Let_def)

text \<open>An instance: \<^verbatim>\<open>sum([x, 1, y]) <= 5\<close> on a new session.\<close>

theorem comparison_compiled_witness:
  "varmap_ok xstate_init
   \<and> (\<exists>c. post_constraint xstate_init
            (Comparison LE (Sum [Var (IntVarImpl ''x'' 0 5), Num 1, Var (IntVarImpl ''y'' 0 5)]) (Atom (Num 5)))
          = (Inr (), xct c (xstate_init\<lparr>xct_calls := [AddVariable ''x'' (XInt 0) (XInt 5), AddVariable ''y'' (XInt 0) (XInt 5)],
                 varmap := [(IntVarImpl ''x'' 0 5, ''x''), (IntVarImpl ''y'' 0 5, ''y'')]\<rparr>))
        \<and> [native_form c] = [AddConstraint [XInt 1, XInt 1] [''x'', ''y''] False (XInt 0) True (XInt 4)]
        \<and> (\<forall>\<sigma>. holds \<sigma> c = (\<sigma> ''x'' + 1 + \<sigma> ''y'' \<le> 5)))"
  using comparison_compiled[OF varmap_ok_init comparison_example_norm, of LE] varmap_ok_init
  by (simp del: post_constraint.simps) blast

lemma indicator_example_norm:
  "make_numexpr xstate_init (Atom (Var (IntVarImpl ''x'' 0 5))) (Atom (Var (IntVarImpl ''y'' 0 5)))
     = (Inr ([-1, 1], [''y'', ''x''], 0),
        xstate_init\<lparr>xct_calls := [AddVariable ''y'' (XInt 0) (XInt 5), AddVariable ''x'' (XInt 0) (XInt 5)],
           varmap := [(IntVarImpl ''y'' 0 5, ''y''), (IntVarImpl ''x'' 0 5, ''x'')]\<rparr>)"
  by (simp add: make_numexpr_def solver_var_plain_def xct_def xstate_init_def over_1e18_def Let_def)

lemma indicator_example_post:
  "post_constraint xstate_init
      (Implication (Atom (Var (NegBoolView ''a'')))
         (Comparison EQ (Atom (Var (IntVarImpl ''x'' 0 5))) (Atom (Var (IntVarImpl ''y'' 0 5)))))
    = (Inr (), xstate_init\<lparr>xct_calls := [AddVariable ''y'' (XInt 0) (XInt 5), AddVariable ''x'' (XInt 0) (XInt 5),
           AddVariable ''a'' (XInt 0) (XInt 1),
           AddLeftReification ''a'' [XInt (-1), XInt 1] [''y'', ''x''] (XInt 1),
           AddLeftReification ''a'' [XInt 1, XInt (-1)] [''y'', ''x''] (XInt 1)],
         varmap := [(IntVarImpl ''y'' 0 5, ''y''), (IntVarImpl ''x'' 0 5, ''x''), (BoolVarImpl ''a'', ''a'')]\<rparr>)"
  by (simp add: make_numexpr_def solver_var_plain_def indicator_emit_def add_xct_reif_left_eq as_sent_def num_str_def
      xct_def xstate_init_def over_1e18_def Let_def)

text \<open>An instance: \<^verbatim>\<open>~a -> (x == y)\<close> on a new session; the two left reifications hold together exactly when the implication does.\<close>

theorem indicator_compiled_witness:
  "varmap_ok xstate_init
   \<and> is_BoolVarImpl (Atom (Var (NegBoolView ''a'')))
   \<and> indicator_lhs_check (Atom (Var (IntVarImpl ''x'' 0 5))) = None
   \<and> (\<forall>\<sigma>. (holds \<sigma> (AddLeftReification ''a'' [XInt (-1), XInt 1] [''y'', ''x''] (XInt 1))
           \<and> holds \<sigma> (AddLeftReification ''a'' [XInt 1, XInt (-1)] [''y'', ''x''] (XInt 1)))
         = (\<sigma> ''a'' \<noteq> 1 \<longrightarrow> \<sigma> ''x'' = \<sigma> ''y''))"
proof -
  let ?c = "Atom (Var (NegBoolView ''a''))"
  let ?l = "Atom (Var (IntVarImpl ''x'' 0 5))"
  let ?r = "Atom (Var (IntVarImpl ''y'' 0 5))"
  have c: "is_BoolVarImpl ?c" and l: "indicator_lhs_check ?l = None" by simp_all
  from indicator_compiled[OF varmap_ok_init c l indicator_example_norm, of EQ]
  obtain s2 s3 where ic: "indicator_cond
        (xstate_init\<lparr>xct_calls := [AddVariable ''y'' (XInt 0) (XInt 5), AddVariable ''x'' (XInt 0) (XInt 5)],
           varmap := [(IntVarImpl ''y'' 0 5, ''y''), (IntVarImpl ''x'' 0 5, ''x'')]\<rparr>) ?c
        = (Inr (cond_name ?c, cond_direct ?c), s2)"
    and post: "post_constraint xstate_init (Implication ?c (Comparison EQ ?l ?r)) = (Inr (), s3)"
    and sem: "\<forall>\<sigma>. list_all (holds \<sigma>) (new_calls s2 s3) = cons_holds \<sigma> (Implication ?c (Comparison EQ ?l ?r))"
    by auto
  from post have s3: "s3 = xstate_init\<lparr>xct_calls := [AddVariable ''y'' (XInt 0) (XInt 5), AddVariable ''x'' (XInt 0) (XInt 5),
           AddVariable ''a'' (XInt 0) (XInt 1),
           AddLeftReification ''a'' [XInt (-1), XInt 1] [''y'', ''x''] (XInt 1),
           AddLeftReification ''a'' [XInt 1, XInt (-1)] [''y'', ''x''] (XInt 1)],
         varmap := [(IntVarImpl ''y'' 0 5, ''y''), (IntVarImpl ''x'' 0 5, ''x''), (BoolVarImpl ''a'', ''a'')]\<rparr>"
    unfolding indicator_example_post by simp
  from ic have s2: "xct_calls s2 = [AddVariable ''y'' (XInt 0) (XInt 5), AddVariable ''x'' (XInt 0) (XInt 5),
           AddVariable ''a'' (XInt 0) (XInt 1)]"
    by (auto simp: solver_var_plain_def xct_def xstate_init_def Let_def)
  have "new_calls s2 s3 = [AddLeftReification ''a'' [XInt (-1), XInt 1] [''y'', ''x''] (XInt 1),
           AddLeftReification ''a'' [XInt 1, XInt (-1)] [''y'', ''x''] (XInt 1)]"
    by (simp add: new_calls_def s2 s3 xstate_init_def)
  with sem have "\<forall>\<sigma>. (holds \<sigma> (AddLeftReification ''a'' [XInt (-1), XInt 1] [''y'', ''x''] (XInt 1))
           \<and> holds \<sigma> (AddLeftReification ''a'' [XInt 1, XInt (-1)] [''y'', ''x''] (XInt 1)))
         = (\<sigma> ''a'' \<noteq> 1 \<longrightarrow> \<sigma> ''x'' = \<sigma> ''y'')"
    by (simp del: holds.simps) 
  with varmap_ok_init c l show ?thesis by blast
qed

subsection \<open>The direction flag does not influence the compilation\<close>

lemma solver_var_plain_direction:
  "solver_var_plain (with_direction m s) v = (fst (solver_var_plain s v), with_direction m (snd (solver_var_plain s v)))"
  by (simp add: solver_var_plain_def with_direction_def xct_def Let_def split: option.splits cpm_var.splits)

lemma solver_var_direction:
  "solver_var (with_direction m s) a = (fst (solver_var s a), with_direction m (snd (solver_var s a)))"
proof (cases a)
  case (Num n)
  then show ?thesis by simp
next
  case (Var v)
  then show ?thesis
    by (cases v) (simp_all add: solver_var_plain_direction split: prod.splits sum.splits)
qed

lemma sum_loop_direction:
  "sum_loop (with_direction m s) xs cs vs r = (fst (sum_loop s xs cs vs r), with_direction m (snd (sum_loop s xs cs vs r)))"
proof (induction s xs cs vs r rule: sum_loop.induct)
  case (3 s v xs cs vs r)
  obtain q t where q: "solver_var s (Var v) = (q, t)" by (cases "solver_var s (Var v)")
  with solver_var_direction[of m s "Var v"] have q': "solver_var (with_direction m s) (Var v) = (q, with_direction m t)"
    by simp
  show ?case
  proof (cases q)
    case (Inl e)
    with q q' show ?thesis by (simp del: solver_var.simps)
  next
    case (Inr h)
    with q q' "3.IH"[OF q[symmetric] Inr] show ?thesis by (simp del: solver_var.simps)
  qed
qed simp_all

lemma wsum_loop_direction:
  "wsum_loop (with_direction m s) xs cs vs r = (fst (wsum_loop s xs cs vs r), with_direction m (snd (wsum_loop s xs cs vs r)))"
proof (induction s xs cs vs r rule: wsum_loop.induct)
  case (3 s c v xs cs vs r)
  obtain q t where q: "solver_var s (Var v) = (q, t)" by (cases "solver_var s (Var v)")
  with solver_var_direction[of m s "Var v"] have q': "solver_var (with_direction m s) (Var v) = (q, with_direction m t)"
    by simp
  show ?case
  proof (cases q)
    case (Inl e)
    with q q' show ?thesis by (simp del: solver_var.simps)
  next
    case (Inr h)
    with q q' "3.IH"[OF q[symmetric] Inr] show ?thesis by (simp del: solver_var.simps)
  qed
qed simp_all

lemma numexpr_rhs_direction:
  "numexpr_rhs (with_direction m s) e = (fst (numexpr_rhs s e), with_direction m (snd (numexpr_rhs s e)))"
proof (induction s e rule: numexpr_rhs.induct)
  case (2 s v)
  show ?case
    using solver_var_direction[of m s "Var v"]
    by (cases "solver_var s (Var v)") (auto simp del: solver_var.simps split: sum.splits)
qed simp_all

lemma numexpr_lhs_direction:
  "numexpr_lhs (with_direction m s) e cs vs r
     = (fst (numexpr_lhs s e cs vs r), with_direction m (snd (numexpr_lhs s e cs vs r)))"
proof (cases e)
  case (Atom a)
  show ?thesis
  proof (cases a)
    case (Num n)
    with Atom show ?thesis by simp
  next
    case (Var v)
    with Atom show ?thesis
      using solver_var_direction[of m s "Var v"]
      by (cases "solver_var s (Var v)") (auto simp del: solver_var.simps split: sum.splits)
  qed
next
  case (Sum args)
  then show ?thesis by (simp add: sum_loop_direction)
next
  case (WSum ws args)
  then show ?thesis by (simp add: wsum_loop_direction)
next
  case (Sub args)
  show ?thesis
  proof (cases "\<exists>a b. args = [a, b]")
    case False
    with Sub show ?thesis by (auto split: list.splits)
  next
    case True
    then obtain a b where ab: "args = [a, b]" by blast
    obtain q t where q: "solver_var s a = (q, t)" by (cases "solver_var s a")
    with solver_var_direction[of m s a] have q': "solver_var (with_direction m s) a = (q, with_direction m t)" by simp
    obtain q2 t2 where q2: "solver_var t b = (q2, t2)" by (cases "solver_var t b")
    with solver_var_direction[of m t b] have q2': "solver_var (with_direction m t) b = (q2, with_direction m t2)" by simp
    from Sub ab q q' q2 q2' show ?thesis
      by (cases q; cases q2) (simp_all del: solver_var.simps)
  qed
next
  case (OtherExpr nm)
  then show ?thesis by simp
qed

lemma make_numexpr_direction:
  "make_numexpr (with_direction m s) lhs rhs
     = (fst (make_numexpr s lhs rhs), with_direction m (snd (make_numexpr s lhs rhs)))"
proof -
  obtain q t where q: "numexpr_rhs s rhs = (q, t)" by (cases "numexpr_rhs s rhs")
  with numexpr_rhs_direction[of m s rhs] have q': "numexpr_rhs (with_direction m s) rhs = (q, with_direction m t)" by simp
  show ?thesis
  proof (cases q)
    case (Inl e)
    with q q' show ?thesis by (simp add: make_numexpr_def)
  next
    case (Inr tr)
    obtain cs vs r where "tr = (cs, vs, r)" by (cases tr)
    with Inr q q' show ?thesis by (simp add: make_numexpr_def numexpr_lhs_direction)
  qed
qed


lemma xct_direction: "xct c (with_direction m s) = with_direction m (xct c s)"
  by (simp add: xct_def with_direction_def)

lemma add_xct_constr_direction:
  "add_xct_constr (with_direction m s) (py_nums cs) vs ul (PyNum lb) uu (PyNum ub)
     = (fst (add_xct_constr s (py_nums cs) vs ul (PyNum lb) uu (PyNum ub)), with_direction m (snd (add_xct_constr s (py_nums cs) vs ul (PyNum lb) uu (PyNum ub))))"
  by (simp add: add_xct_constr_eq Let_def xct_direction)

lemma add_xct_reif_right_direction:
  "add_xct_reif_right (with_direction m s) h (py_nums cs) vs (PyNum b)
     = (fst (add_xct_reif_right s h (py_nums cs) vs (PyNum b)), with_direction m (snd (add_xct_reif_right s h (py_nums cs) vs (PyNum b))))"
  by (simp add: add_xct_reif_right_eq Let_def xct_direction)

lemma add_xct_reif_left_direction:
  "add_xct_reif_left (with_direction m s) h (py_nums cs) vs (PyNum b)
     = (fst (add_xct_reif_left s h (py_nums cs) vs (PyNum b)), with_direction m (snd (add_xct_reif_left s h (py_nums cs) vs (PyNum b))))"
  by (simp add: add_xct_reif_left_eq Let_def xct_direction)

lemma indicator_emit_direction:
  "indicator_emit (with_direction m s) h b opr cs vs r
     = (fst (indicator_emit s h b opr cs vs r), with_direction m (snd (indicator_emit s h b opr cs vs r)))"
  by (cases opr; cases b; cases "cs = []")
     (simp_all add: indicator_emit_def add_xct_reif_right_eq add_xct_reif_left_eq Let_def xct_direction)

lemma indicator_cond_plain:
  "\<not> (\<exists>b. a = Var (NegBoolView b)) \<Longrightarrow>
     indicator_cond t (Atom a) = (case solver_var t a of (Inl e, s') \<Rightarrow> (Inl e, s') | (Inr h, s') \<Rightarrow> (Inr (h, True), s'))"
proof (cases a)
  case (Num n)
  then show ?thesis by simp
next
  case (Var v)
  assume "\<not> (\<exists>b. a = Var (NegBoolView b))"
  with Var show ?thesis by (cases v) simp_all
qed

lemma indicator_cond_direction:
  "indicator_cond (with_direction m s) c = (fst (indicator_cond s c), with_direction m (snd (indicator_cond s c)))"
proof (cases c)
  case (Atom a)
  show ?thesis
  proof (cases "\<exists>b. a = Var (NegBoolView b)")
    case True
    then obtain b where "a = Var (NegBoolView b)" by blast
    with Atom show ?thesis
      using solver_var_direction[of m s "Var (BoolVarImpl b)"]
      by (cases "solver_var s (Var (BoolVarImpl b))") (auto simp del: solver_var.simps split: sum.splits)
  next
    case False
    with Atom show ?thesis
      using solver_var_direction[of m s a]
      by (cases "solver_var s a") (auto simp: indicator_cond_plain simp del: solver_var.simps split: sum.splits)
  qed
qed simp_all

lemma post_constraint_direction:
  "post_constraint (with_direction m s) c = (fst (post_constraint s c), with_direction m (snd (post_constraint s c)))"
proof (cases c)
  case (Comparison opr lhs rhs)
  obtain q t where q: "make_numexpr s lhs rhs = (q, t)" by (cases "make_numexpr s lhs rhs")
  with make_numexpr_direction[of m s lhs rhs]
  have q': "make_numexpr (with_direction m s) lhs rhs = (q, with_direction m t)" by simp
  show ?thesis
  proof (cases q)
    case (Inl e)
    with Comparison q q' show ?thesis by simp
  next
    case (Inr tr)
    obtain cs vs r where "tr = (cs, vs, r)" by (cases tr)
    with Comparison q q' Inr show ?thesis
      by (cases opr) (simp_all add: add_xct_constr_direction)
  qed
next
  case (Implication cond sub)
  show ?thesis
  proof (cases sub)
    case inner: (Implication c' e')
    with Implication show ?thesis by simp
  next
    case cmp: (Comparison opr lhs rhs)
    obtain q t where q: "make_numexpr s lhs rhs = (q, t)" by (cases "make_numexpr s lhs rhs")
    with make_numexpr_direction[of m s lhs rhs]
    have q': "make_numexpr (with_direction m s) lhs rhs = (q, with_direction m t)" by simp
    show ?thesis
    proof (cases q)
      case (Inl e)
      with Implication cmp q q' show ?thesis by (simp split: option.splits)
    next
      case (Inr tr)
      obtain cs vs r where tr: "tr = (cs, vs, r)" by (cases tr)
      obtain q2 t2 where q2: "indicator_cond t cond = (q2, t2)" by (cases "indicator_cond t cond")
      with indicator_cond_direction[of m t cond]
      have q2': "indicator_cond (with_direction m t) cond = (q2, with_direction m t2)" by simp
      show ?thesis
      proof (cases q2)
        case inl2: (Inl e)
        with Implication cmp q q' Inr tr q2 q2' show ?thesis by (simp split: option.splits)
      next
        case inr2: (Inr hb)
        obtain h b where "hb = (h, b)" by (cases hb)
        with Implication cmp q q' Inr tr q2 q2' inr2 show ?thesis
          by (simp add: indicator_emit_direction split: option.splits)
      qed
    qed
  qed
qed

lemma post_all_direction:
  "post_all (with_direction m s) cs = (fst (post_all s cs), with_direction m (snd (post_all s cs)))"
proof (induction s cs rule: post_all.induct)
  case (1 s)
  then show ?case by simp
next
  case (2 s con cons)
  obtain q t where q: "post_constraint s con = (q, t)" by (cases "post_constraint s con")
  with post_constraint_direction[of m s con]
  have q': "post_constraint (with_direction m s) con = (q, with_direction m t)" by simp
  show ?case
  proof (cases q)
    case (Inl e)
    with q q' show ?thesis by simp
  next
    case (Inr u)
    with q q' "2.IH"[OF q[symmetric] Inr] show ?thesis by simp
  qed
qed

lemma add_cons_direction:
  "add_cons (with_direction m s) vars cs = (fst (add_cons s vars cs), with_direction m (snd (add_cons s vars cs)))"
proof -
  have "(with_direction m s)\<lparr>user_vars := set_update (user_vars (with_direction m s)) vars\<rparr>
      = with_direction m (s\<lparr>user_vars := set_update (user_vars s) vars\<rparr>)"
    by (simp add: with_direction_def)
  then show ?thesis by (simp add: add_cons_def post_all_direction)
qed


lemma solver_vars_direction:
  "solver_vars (with_direction m s) vs = (fst (solver_vars s vs), with_direction m (snd (solver_vars s vs)))"
proof (induction s vs rule: solver_vars.induct)
  case (1 s)
  then show ?case by simp
next
  case (2 s v vs)
  obtain q t where q: "solver_var s (Var v) = (q, t)" by (cases "solver_var s (Var v)")
  with solver_var_direction[of m s "Var v"] have q': "solver_var (with_direction m s) (Var v) = (q, with_direction m t)"
    by simp
  show ?case
  proof (cases q)
    case (Inl e)
    with q q' show ?thesis by (simp del: solver_var.simps)
  next
    case (Inr h)
    obtain q2 t2 where q2: "solver_vars t vs = (q2, t2)" by (cases "solver_vars t vs")
    with "2.IH"[OF q[symmetric] Inr] have "solver_vars (with_direction m t) vs = (q2, with_direction m t2)" by simp
    with q q' Inr q2 show ?thesis by (cases q2) (simp_all del: solver_var.simps)
  qed
qed

subsection \<open>The negated objective normalises to the negated coefficients\<close>

lemma sum_loop_neg:
  "sum_loop s xs cs vs r = (Inr (cs', vs', r'), s') \<Longrightarrow>
     wsum_loop s (zip (replicate (length xs) (-1)) xs) (map uminus cs) vs (- r) = (Inr (map uminus cs', vs', - r'), s')"
proof (induction s xs cs vs r rule: sum_loop.induct)
  case (1 s cs vs r)
  then show ?case by simp
next
  case (2 s n xs cs vs r)
  then show ?case by simp
next
  case (3 s v xs cs vs r)
  from "3.prems" obtain h t where sv: "solver_var s (Var v) = (Inr h, t)"
    and rec: "sum_loop t xs (cs @ [1]) (vs @ [h]) r = (Inr (cs', vs', r'), s')"
    by (simp del: solver_var.simps split: prod.splits sum.splits)
  from "3.IH"[OF sv[symmetric] refl rec] sv show ?case by (simp del: solver_var.simps)
qed

lemma wsum_loop_neg:
  "wsum_loop s xs cs vs r = (Inr (cs', vs', r'), s') \<Longrightarrow>
     wsum_loop s (map (\<lambda>(c, x). (- c, x)) xs) (map uminus cs) vs (- r) = (Inr (map uminus cs', vs', - r'), s')"
proof (induction s xs cs vs r rule: wsum_loop.induct)
  case (1 s cs vs r)
  then show ?case by simp
next
  case (2 s c n xs cs vs r)
  then show ?case by simp
next
  case (3 s c v xs cs vs r)
  from "3.prems" obtain h t where sv: "solver_var s (Var v) = (Inr h, t)"
    and rec: "wsum_loop t xs (cs @ [c]) (vs @ [h]) r = (Inr (cs', vs', r'), s')"
    by (simp del: solver_var.simps split: prod.splits sum.splits)
  from "3.IH"[OF sv[symmetric] refl rec] sv show ?case by (simp del: solver_var.simps)
qed

lemma zip_map_uminus: "zip (map uminus cs) xs = map (\<lambda>(c, x). (- c, x)) (zip cs (xs :: atom list))"
  by (induction cs arbitrary: xs) (auto simp: zip_Cons1 split: list.splits)

lemma numexpr_lhs_neg:
  assumes "numexpr_lhs s e [] [] 0 = (Inr (cs, vs, r), s')"
  shows "numexpr_lhs s (neg_obj e) [] [] 0 = (Inr (map uminus cs, vs, - r), s')"
proof (cases e)
  case (Atom a)
  show ?thesis
  proof (cases a)
    case (Num n)
    with Atom assms show ?thesis by auto
  next
    case (Var v)
    with Atom assms show ?thesis
      by (auto simp del: solver_var.simps split: prod.splits sum.splits)
  qed
next
  case (Sum args)
  with assms sum_loop_neg[of s args "[]" "[]" 0 cs vs r s'] show ?thesis by simp
next
  case (WSum ws args)
  with assms wsum_loop_neg[of s "zip ws args" "[]" "[]" 0 cs vs r s'] show ?thesis
    by (simp add: zip_map_uminus)
next
  case (Sub args)
  with assms obtain a b where ab: "args = [a, b]" by (auto split: list.splits)
  from Sub ab assms obtain ha t hb where
    sa: "solver_var s a = (Inr ha, t)" and sb: "solver_var t b = (Inr hb, s')"
    and e: "cs = [1, -1]" "vs = [ha, hb]" "r = 0"
    by (auto simp del: solver_var.simps split: prod.splits sum.splits)
  from sa obtain va where a: "a = Var va" by (cases a) auto
  from sb obtain vb where b: "b = Var vb" by (cases b) auto
  from Sub ab a b sa sb e show ?thesis by (simp del: solver_var.simps)
next
  case (OtherExpr nm)
  with assms show ?thesis by simp
qed

lemma make_numexpr_neg:
  assumes "make_numexpr s e (Atom (Num 0)) = (Inr (cs, vs, r), s')"
  shows "make_numexpr s (neg_obj e) (Atom (Num 0)) = (Inr (map uminus cs, vs, - r), s')"
  using assms numexpr_lhs_neg[of s e cs vs r s'] by (simp add: make_numexpr_def)


subsection \<open>Minimising an expression and maximising its negation\<close>

lemma with_direction_fields:
  "objective_minimize (with_direction m s) = m" "user_vars (with_direction m s) = user_vars s"
  "var_value (with_direction m s) = var_value s" "xct_calls (with_direction m s) = xct_calls s"
  "has_objective (with_direction m s) = has_objective s" "objective_value (with_direction m s) = objective_value s"
  by (simp_all add: with_direction_def)

lemma objective_eq:
  assumes "\<not> has_objective s"
  shows "objective s e ov cv fc m =
     (case add_cons (s\<lparr>has_objective := True\<rparr>) cv fc of
        (Inl e', t2) \<Rightarrow> (Inl e', with_direction m t2)
      | (Inr u, t2) \<Rightarrow>
         (case make_numexpr (t2\<lparr>user_vars := set_update (user_vars t2) ov\<rparr>) e (Atom (Num 0)) of
            (Inl e', t4) \<Rightarrow> (Inl e', with_direction m t4)
          | (Inr (cs, vs, r), t4) \<Rightarrow> (Inr (), with_direction m (xct (Init (if m then cs else map uminus cs) vs) t4))))"
proof -
  let ?s0 = "s\<lparr>has_objective := True\<rparr>"
  have s1: "s\<lparr>has_objective := True, objective_minimize := m\<rparr> = with_direction m ?s0"
    by (simp add: with_direction_def)
  obtain q t2 where q: "add_cons ?s0 cv fc = (q, t2)" by (cases "add_cons ?s0 cv fc")
  with add_cons_direction[of m ?s0 cv fc] have q': "add_cons (with_direction m ?s0) cv fc = (q, with_direction m t2)"
    by simp
  show ?thesis
  proof (cases q)
    case (Inl e')
    with assms q q' show ?thesis by (simp add: objective_def s1 Let_def)
  next
    case (Inr u)
    let ?t3 = "t2\<lparr>user_vars := set_update (user_vars t2) ov\<rparr>"
    have t3: "(with_direction m t2)\<lparr>user_vars := set_update (user_vars t2) ov\<rparr> = with_direction m ?t3"
      by (simp add: with_direction_def)
    obtain q2 t4 where q2: "make_numexpr ?t3 e (Atom (Num 0)) = (q2, t4)" by (cases "make_numexpr ?t3 e (Atom (Num 0))")
    with make_numexpr_direction[of m ?t3 e "Atom (Num 0)"]
    have q2': "make_numexpr (with_direction m ?t3) e (Atom (Num 0)) = (q2, with_direction m t4)" by simp
    show ?thesis
    proof (cases q2)
      case inl2: (Inl e')
      with assms q q' Inr q2 q2' show ?thesis by (simp add: objective_def s1 t3 Let_def with_direction_fields)
    next
      case inr2: (Inr tr)
      obtain cs vs r where "tr = (cs, vs, r)" by (cases tr)
      with assms q q' Inr q2 q2' inr2 show ?thesis
        by (simp add: objective_def s1 t3 Let_def with_direction_fields xct_direction)
    qed
  qed
qed

lemma getSolAndObj_eq:
  "getSolAndObj s r =
     (if \<not> has_solution r then (Inr False, s\<lparr>objective_value := None\<rparr>)
      else case solver_vars s (user_vars s) of
             (Inl e, s') \<Rightarrow> (Inl e, s')
           | (Inr hs, s') \<Rightarrow>
               (Inr True, s'\<lparr>var_value := fill_values (var_value s') (zip (user_vars s') (map (last_solution r) hs)),
                    objective_value := Some (if objective_minimize s' then snd (objective_bounds r)
                                             else - snd (objective_bounds r))\<rparr>))"
  by (simp add: getSolAndObj_def Let_def split: prod.splits sum.splits)

lemma getSolAndObj_direction:
  "fst (getSolAndObj (with_direction m s) r) = fst (getSolAndObj s r)
   \<and> var_value (snd (getSolAndObj (with_direction m s) r)) = var_value (snd (getSolAndObj s r))
   \<and> xct_calls (snd (getSolAndObj (with_direction m s) r)) = xct_calls (snd (getSolAndObj s r))"
proof -
  obtain q t where q: "solver_vars s (user_vars s) = (q, t)" by (cases "solver_vars s (user_vars s)")
  with solver_vars_direction[of m s "user_vars s"]
  have q': "solver_vars (with_direction m s) (user_vars s) = (q, with_direction m t)" by simp
  show ?thesis
  proof (cases "has_solution r")
    case False
    then show ?thesis by (simp add: getSolAndObj_eq with_direction_def)
  next
    case True
    show ?thesis
    proof (cases q)
      case (Inl e)
      with True q q' show ?thesis by (simp add: getSolAndObj_eq with_direction_fields)
    next
      case (Inr hs)
      with True q q' show ?thesis by (simp add: getSolAndObj_eq with_direction_fields)
    qed
  qed
qed

lemma getSolAndObj_objective_value:
  assumes "getSolAndObj s r = (Inr True, s')"
  shows "objective_value s' = Some (if objective_minimize s then snd (objective_bounds r) else - snd (objective_bounds r))"
proof -
  obtain q t where q: "solver_vars s (user_vars s) = (q, t)" by (cases "solver_vars s (user_vars s)")
  from solver_step_fields[OF solver_vars_step[OF q]] have "objective_minimize t = objective_minimize s" by simp
  with assms q show ?thesis by (cases q) (auto simp: getSolAndObj_eq split: if_splits)
qed

lemma objective_direction_stored:
  assumes "objective s e ov cv fc m = (Inr u, t)"
  shows "objective_minimize t = m"
proof -
  from assms have nh: "\<not> has_objective s" by (auto simp: objective_def split: if_splits)
  from assms show ?thesis
    unfolding objective_eq[OF nh]
    by (auto simp: with_direction_fields split: prod.splits sum.splits)
qed

text \<open>
  Claim C6. When \<^verbatim>\<open>objective\<close> succeeds for minimisation with \<^verbatim>\<open>init(coefs, vars)\<close>,
  the same call for maximisation posts \<^verbatim>\<open>init\<close> with the negated coefficients; the
  extractor stores the solver's upper bound, negated when the direction is maximisation.
  Hence maximising the negated expression makes the same calls on the solver as minimising
  the expression and leaves the same session but for the direction flag; for every
  answer of the solver the two extractions succeed or fail alike and store the same
  variable values, and the two objective values are negations of each other.
\<close>

theorem maximize_posts_negation:
  assumes "objective s e ov cv fc True = (Inr u, t)"
  shows "(\<exists>cs vs t4. t = with_direction True (xct (Init cs vs) t4)
            \<and> objective s e ov cv fc False = (Inr u, with_direction False (xct (Init (map uminus cs) vs) t4)))
     \<and> objective s (neg_obj e) ov cv fc False = (Inr u, with_direction False t)
     \<and> (\<forall>r. fst (getSolAndObj (with_direction False t) r) = fst (getSolAndObj t r)
            \<and> var_value (snd (getSolAndObj (with_direction False t) r)) = var_value (snd (getSolAndObj t r))
            \<and> (fst (getSolAndObj t r) = Inr True \<longrightarrow>
                 objective_value (snd (getSolAndObj t r)) = Some (snd (objective_bounds r))
                 \<and> objective_value (snd (getSolAndObj (with_direction False t) r)) = Some (- snd (objective_bounds r))))"
proof -
  from assms have nh: "\<not> has_objective s" by (auto simp: objective_def split: if_splits)
  let ?s0 = "s\<lparr>has_objective := True\<rparr>"
  from assms obtain t2 where ac: "add_cons ?s0 cv fc = (Inr (), t2)"
    unfolding objective_eq[OF nh] by (auto split: prod.splits sum.splits)
  let ?t3 = "t2\<lparr>user_vars := set_update (user_vars t2) ov\<rparr>"
  from assms ac obtain cs vs r t4 where mk: "make_numexpr ?t3 e (Atom (Num 0)) = (Inr (cs, vs, r), t4)"
    and t: "t = with_direction True (xct (Init cs vs) t4)"
    unfolding objective_eq[OF nh] by (auto split: prod.splits sum.splits)
  have again: "with_direction False (with_direction True (xct (Init cs vs) t4)) = with_direction False (xct (Init cs vs) t4)"
    by (simp add: with_direction_def)
  have first: "objective s e ov cv fc False = (Inr u, with_direction False (xct (Init (map uminus cs) vs) t4))"
    unfolding objective_eq[OF nh] using ac mk by simp
  have second: "objective s (neg_obj e) ov cv fc False = (Inr u, with_direction False t)"
    unfolding objective_eq[OF nh] using ac make_numexpr_neg[OF mk] t again by (simp add: comp_def)
  have third: "\<forall>r. fst (getSolAndObj (with_direction False t) r) = fst (getSolAndObj t r)
            \<and> var_value (snd (getSolAndObj (with_direction False t) r)) = var_value (snd (getSolAndObj t r))
            \<and> (fst (getSolAndObj t r) = Inr True \<longrightarrow>
                 objective_value (snd (getSolAndObj t r)) = Some (snd (objective_bounds r))
                 \<and> objective_value (snd (getSolAndObj (with_direction False t) r)) = Some (- snd (objective_bounds r)))"
  proof (intro allI conjI impI)
    fix r'
    show "fst (getSolAndObj (with_direction False t) r') = fst (getSolAndObj t r')"
      and "var_value (snd (getSolAndObj (with_direction False t) r')) = var_value (snd (getSolAndObj t r'))"
      using getSolAndObj_direction[of False t r'] by simp_all
    assume ok: "fst (getSolAndObj t r') = Inr True"
    then have a: "getSolAndObj t r' = (Inr True, snd (getSolAndObj t r'))" by (simp add: prod_eq_iff)
    from ok getSolAndObj_direction[of False t r']
    have b: "getSolAndObj (with_direction False t) r' = (Inr True, snd (getSolAndObj (with_direction False t) r'))"
      by (simp add: prod_eq_iff)
    show "objective_value (snd (getSolAndObj t r')) = Some (snd (objective_bounds r'))"
      using getSolAndObj_objective_value[OF a] objective_direction_stored[OF assms] by simp
    show "objective_value (snd (getSolAndObj (with_direction False t) r')) = Some (- snd (objective_bounds r'))"
      using getSolAndObj_objective_value[OF b] by (simp add: with_direction_fields)
  qed
  from t first second third show ?thesis by blast
qed


lemma objective_minimise_example:
  "objective xstate_init (WSum [2, 3] [Var (IntVarImpl ''x'' 0 5), Var (IntVarImpl ''y'' 0 5)])
      [IntVarImpl ''x'' 0 5, IntVarImpl ''y'' 0 5] [] [] True = (Inr (), state_minimised)"
  by (simp add: objective_def add_cons_def set_update_def make_numexpr_def solver_var_plain_def xct_def
      xstate_init_def state_minimised_def over_1e18_def Let_def)

lemma extraction_example:
  "fst (getSolAndObj state_minimised reply_found) = Inr True
   \<and> var_value (snd (getSolAndObj state_minimised reply_found))
        = [(IntVarImpl ''x'' 0 5, PyInt 1), (IntVarImpl ''y'' 0 5, PyInt 2)]"
  by (simp add: getSolAndObj_def state_minimised_def reply_found_def xstate_init_def solver_var_plain_def Let_def)

text \<open>An instance: minimising \<^verbatim>\<open>2x + 3y\<close> and maximising \<^verbatim>\<open>-2x - 3y\<close> on a new session, with an answer whose upper bound is 8.\<close>

theorem maximize_posts_negation_witness:
  "objective xstate_init (WSum [2, 3] [Var (IntVarImpl ''x'' 0 5), Var (IntVarImpl ''y'' 0 5)])
      [IntVarImpl ''x'' 0 5, IntVarImpl ''y'' 0 5] [] [] True = (Inr (), state_minimised)
   \<and> objective xstate_init (WSum [-2, -3] [Var (IntVarImpl ''x'' 0 5), Var (IntVarImpl ''y'' 0 5)])
      [IntVarImpl ''x'' 0 5, IntVarImpl ''y'' 0 5] [] [] False = (Inr (), with_direction False state_minimised)
   \<and> objective_value (snd (getSolAndObj state_minimised reply_found)) = Some 8
   \<and> objective_value (snd (getSolAndObj (with_direction False state_minimised) reply_found)) = Some (- 8)
   \<and> var_value (snd (getSolAndObj (with_direction False state_minimised) reply_found))
        = [(IntVarImpl ''x'' 0 5, PyInt 1), (IntVarImpl ''y'' 0 5, PyInt 2)]"
proof -
  note th = maximize_posts_negation[OF objective_minimise_example]
  from th have neg: "objective xstate_init (neg_obj (WSum [2, 3] [Var (IntVarImpl ''x'' 0 5), Var (IntVarImpl ''y'' 0 5)]))
      [IntVarImpl ''x'' 0 5, IntVarImpl ''y'' 0 5] [] [] False = (Inr (), with_direction False state_minimised)"
    by blast
  from th have ex: "fst (getSolAndObj (with_direction False state_minimised) reply_found) = fst (getSolAndObj state_minimised reply_found)
            \<and> var_value (snd (getSolAndObj (with_direction False state_minimised) reply_found)) = var_value (snd (getSolAndObj state_minimised reply_found))
            \<and> (fst (getSolAndObj state_minimised reply_found) = Inr True \<longrightarrow>
                 objective_value (snd (getSolAndObj state_minimised reply_found)) = Some (snd (objective_bounds reply_found))
                 \<and> objective_value (snd (getSolAndObj (with_direction False state_minimised) reply_found)) = Some (- snd (objective_bounds reply_found)))"
    by blast
  have b: "snd (objective_bounds reply_found) = 8" by (simp add: reply_found_def)
  from neg ex extraction_example b objective_minimise_example show ?thesis by simp
qed

section \<open>Properties of the solve calls\<close>

lemma z3_clear_keeps_None: "map_of vals v = Some PyNone \<Longrightarrow> map_of (z3_clear vals ws) v = Some PyNone"
  by (induction ws arbitrary: vals) (simp_all add: update_conv')

lemma z3_clear_cleared: "v \<in> set vs \<Longrightarrow> map_of (z3_clear vals vs) v = Some PyNone"
proof (induction vs arbitrary: vals)
  case Nil
  then show ?case by simp
next
  case (Cons w ws)
  show ?case
  proof (cases "v = w")
    case True
    have "map_of (AList.update w PyNone vals) w = Some PyNone" by (simp add: update_conv')
    from z3_clear_keeps_None[OF this] True show ?thesis by simp
  next
    case False
    with Cons show ?thesis by simp
  qed
qed

lemma z3_clear_other: "v \<notin> set vs \<Longrightarrow> map_of (z3_clear vals vs) v = map_of vals v"
  by (induction vs arbitrary: vals) (simp_all add: update_conv')

lemma z3_set_keeps:
  "z3_user_vars (z3_set k v s) = z3_user_vars s" "z3_var_value (z3_set k v s) = z3_var_value s"
  "z3_varmap (z3_set k v s) = z3_varmap s" "z3_assertions (z3_set k v s) = z3_assertions s"
  "z3_user_vars (z3_set_all s kw) = z3_user_vars s" "z3_var_value (z3_set_all s kw) = z3_var_value s"
  "z3_varmap (z3_set_all s kw) = z3_varmap s" "z3_assertions (z3_set_all s kw) = z3_assertions s"
  "z3_user_vars (z3_set_timeout s tlim) = z3_user_vars s" "z3_var_value (z3_set_timeout s tlim) = z3_var_value s"
  "z3_varmap (z3_set_timeout s tlim) = z3_varmap s" "z3_assertions (z3_set_timeout s tlim) = z3_assertions s"
proof -
  show a: "\<And>s. z3_user_vars (z3_set k v s) = z3_user_vars s" "\<And>s. z3_var_value (z3_set k v s) = z3_var_value s"
    "\<And>s. z3_varmap (z3_set k v s) = z3_varmap s" "\<And>s. z3_assertions (z3_set k v s) = z3_assertions s"
    by (simp_all add: z3_set_def)
  have b: "z3_user_vars (z3_set_all s kw) = z3_user_vars s \<and> z3_var_value (z3_set_all s kw) = z3_var_value s
    \<and> z3_varmap (z3_set_all s kw) = z3_varmap s \<and> z3_assertions (z3_set_all s kw) = z3_assertions s"
    unfolding z3_set_all_def by (induction kw arbitrary: s) (auto simp: z3_set_def)
  then show "z3_user_vars (z3_set_all s kw) = z3_user_vars s" "z3_var_value (z3_set_all s kw) = z3_var_value s"
    "z3_varmap (z3_set_all s kw) = z3_varmap s" "z3_assertions (z3_set_all s kw) = z3_assertions s" by simp_all
  show "z3_user_vars (z3_set_timeout s tlim) = z3_user_vars s" "z3_var_value (z3_set_timeout s tlim) = z3_var_value s"
    "z3_varmap (z3_set_timeout s tlim) = z3_varmap s" "z3_assertions (z3_set_timeout s tlim) = z3_assertions s"
    by (simp_all add: z3_set_timeout_def z3_set_def split: option.splits)
qed

lemma z3_solve_unknown:
  assumes "check_result r = ''unknown''" "\<not> solve_return UNKNOWN"
  shows "\<exists>s'. z3_solve solve_return s tlim asm kw r = (Inr False, s')
            \<and> z3_exitstatus s' = UNKNOWN
            \<and> z3_user_vars s' = z3_user_vars s
            \<and> (\<forall>v\<in>set (z3_user_vars s'). map_of (z3_var_value s') v = Some PyNone)"
  using assms by (simp add: z3_solve_def Let_def z3_clear_cleared z3_set_keeps)

lemma z3_solve_unrecognised:
  assumes "check_result r \<noteq> ''sat''" "check_result r \<noteq> ''unsat''" "check_result r \<noteq> ''unknown''"
  shows "fst (z3_solve solve_return s tlim asm kw r) = Inl NotImplementedError"
  using assms by (simp add: z3_solve_def Let_def)

lemma solve_unknown:
  assumes "run_status r = 2"
  shows "solve s tlim None kw r
     = getSolAndObj ((xct RunFull (set_options (set_timeout (init_if_needed s) tlim) kw))\<lparr>exitstatus := UNKNOWN\<rparr>) r"
  using assms by (simp add: solve_def Let_def)

lemma solve_unrecognised:
  assumes "run_status r \<noteq> 0" "run_status r \<noteq> 2"
  shows "fst (solve s tlim None kw r) = Inl NotImplementedError"
  using assms by (simp add: solve_def Let_def)


lemma settings_keep_values:
  "var_value (init_if_needed s) = var_value s" "var_value (set_timeout s tlim) = var_value s"
  "var_value (set_options s kw) = var_value s" "var_value (xct c s) = var_value s"
proof -
  show "var_value (init_if_needed s) = var_value s" by (simp add: init_if_needed_def xct_def)
  show "var_value (set_timeout s tlim) = var_value s" by (simp add: set_timeout_def xct_def split: option.splits)
  show "var_value (set_options s kw) = var_value s"
    unfolding set_options_def by (induction kw arbitrary: s) (auto simp: xct_def)
  show "var_value (xct c s) = var_value s" by (simp add: xct_def)
qed

text \<open>
  Claim C8, as amended. A status 2 of the Exact run is not an error: the exit status
  becomes \<^verbatim>\<open>UNKNOWN\<close> and \<^verbatim>\<open>solve\<close> goes on to the extraction, which without a solution
  returns \<open>False\<close> and leaves the stored values of the variables as they were; any status
  other than 0 and 2 raises \<^verbatim>\<open>NotImplementedError\<close>. On Z3 the result \<^verbatim>\<open>unknown\<close> gives the
  exit status \<^verbatim>\<open>UNKNOWN\<close>, the return value \<open>False\<close> and the value \<^verbatim>\<open>None\<close> for every
  variable of \<^verbatim>\<open>user_vars\<close>; any result other than \<^verbatim>\<open>sat\<close>, \<^verbatim>\<open>unsat\<close> and
  \<^verbatim>\<open>unknown\<close> raises \<^verbatim>\<open>NotImplementedError\<close>.
\<close>

theorem unknown_status_reported:
  assumes "\<not> solve_return UNKNOWN"
  shows "(run_status r = 2 \<longrightarrow>
            solve s tlim None kw r
              = getSolAndObj ((xct RunFull (set_options (set_timeout (init_if_needed s) tlim) kw))\<lparr>exitstatus := UNKNOWN\<rparr>) r
            \<and> exitstatus (snd (solve s tlim None kw r)) = UNKNOWN
            \<and> (\<not> has_solution r \<longrightarrow> fst (solve s tlim None kw r) = Inr False
                  \<and> var_value (snd (solve s tlim None kw r)) = var_value s))
     \<and> (run_status r \<noteq> 0 \<and> run_status r \<noteq> 2 \<longrightarrow> fst (solve s tlim None kw r) = Inl NotImplementedError)
     \<and> (check_result z = ''unknown'' \<longrightarrow>
           (\<exists>t'. z3_solve solve_return t ztlim asm zkw z = (Inr False, t')
              \<and> z3_exitstatus t' = UNKNOWN
              \<and> z3_user_vars t' = z3_user_vars t
              \<and> (\<forall>v\<in>set (z3_user_vars t'). map_of (z3_var_value t') v = Some PyNone)))
     \<and> (check_result z \<noteq> ''sat'' \<and> check_result z \<noteq> ''unsat'' \<and> check_result z \<noteq> ''unknown'' \<longrightarrow>
           fst (z3_solve solve_return t ztlim asm zkw z) = Inl NotImplementedError)"
proof (intro conjI impI)
  let ?u = "(xct RunFull (set_options (set_timeout (init_if_needed s) tlim) kw))\<lparr>exitstatus := UNKNOWN\<rparr>"
  assume r2: "run_status r = 2"
  show eq: "solve s tlim None kw r = getSolAndObj ?u r"
    using r2 by (rule solve_unknown)
  obtain q u' where g: "getSolAndObj ?u r = (q, u')" by (cases "getSolAndObj ?u r")
  from getSolAndObj_keeps[OF g] show "exitstatus (snd (solve s tlim None kw r)) = UNKNOWN"
    unfolding eq g by simp
  assume "\<not> has_solution r"
  then show "fst (solve s tlim None kw r) = Inr False" "var_value (snd (solve s tlim None kw r)) = var_value s"
    unfolding eq by (simp_all add: getSolAndObj_def settings_keep_values)
next
  assume "run_status r \<noteq> 0 \<and> run_status r \<noteq> 2"
  then show "fst (solve s tlim None kw r) = Inl NotImplementedError"
    by (simp add: solve_unrecognised)
next
  assume "check_result z = ''unknown''"
  from z3_solve_unknown[where solve_return = solve_return, OF this assms]
  show "\<exists>t'. z3_solve solve_return t ztlim asm zkw z = (Inr False, t')
              \<and> z3_exitstatus t' = UNKNOWN
              \<and> z3_user_vars t' = z3_user_vars t
              \<and> (\<forall>v\<in>set (z3_user_vars t'). map_of (z3_var_value t') v = Some PyNone)" .
next
  assume "check_result z \<noteq> ''sat'' \<and> check_result z \<noteq> ''unsat'' \<and> check_result z \<noteq> ''unknown''"
  then show "fst (z3_solve solve_return t ztlim asm zkw z) = Inl NotImplementedError"
    by (simp add: z3_solve_unrecognised)
qed

text \<open>On Exact, a run that ends with status 2 and without solution leaves the value stored for \<open>x\<close> in place.\<close>

theorem unknown_keeps_values_counterexample:
  "run_status reply_timeout = 2
   \<and> solve state_with_value None None [] reply_timeout
      = (Inr False, state_with_value\<lparr>xct_calls := [Init [] [], RunFull], has_objective := True, exitstatus := UNKNOWN\<rparr>)
   \<and> map_of (var_value (snd (solve state_with_value None None [] reply_timeout))) (IntVarImpl ''x'' 0 5) = Some (PyInt 3)"
  by (simp add: solve_def init_if_needed_def set_timeout_def set_options_def getSolAndObj_def xct_def
      state_with_value_def xstate_init_def reply_timeout_def Let_def)

text \<open>An instance on both interfaces, with a value stored for \<open>x\<close> before the call.\<close>

theorem unknown_status_reported_witness:
  "\<not> solve_return_default UNKNOWN
   \<and> run_status reply_timeout = 2 \<and> \<not> has_solution reply_timeout
   \<and> fst (solve state_with_value None None [] reply_timeout) = Inr False
   \<and> exitstatus (snd (solve state_with_value None None [] reply_timeout)) = UNKNOWN
   \<and> check_result z3_reply_unknown = ''unknown''
   \<and> z3_solve solve_return_default zstate_with_value None [] [] z3_reply_unknown
       = (Inr False, zstate_with_value\<lparr>z3_exitstatus := UNKNOWN, z3_var_value := [(IntVarImpl ''x'' 0 5, PyNone)]\<rparr>)"
proof -
  have a: "\<not> solve_return_default UNKNOWN" by (simp add: solve_return_default_def)
  have b: "run_status reply_timeout = 2" "\<not> has_solution reply_timeout" by (simp_all add: reply_timeout_def)
  have c: "check_result z3_reply_unknown = ''unknown''" by (simp add: z3_reply_unknown_def)
  have d: "z3_solve solve_return_default zstate_with_value None [] [] z3_reply_unknown
       = (Inr False, zstate_with_value\<lparr>z3_exitstatus := UNKNOWN, z3_var_value := [(IntVarImpl ''x'' 0 5, PyNone)]\<rparr>)"
    by (simp add: z3_solve_def z3_set_timeout_def z3_set_all_def solve_return_default_def zstate_with_value_def
        zstate_init_def z3_reply_unknown_def Let_def)
  from unknown_status_reported[of solve_return_default reply_timeout state_with_value None "[]" z3_reply_unknown
      zstate_with_value None "[]" "[]", OF a]
    a b c d show ?thesis by blast
qed

subsection \<open>Integer variables stay within their bounds on Z3\<close>

lemma z3_stored_ok_mono: "set as \<subseteq> set bs \<Longrightarrow> z3_stored_ok as p \<Longrightarrow> z3_stored_ok bs p"
  by (induction as p rule: z3_stored_ok.induct) auto

lemma z3_tracked_ok_mono: "map_of vm v \<noteq> None \<or> z3_tracked_ok vm v \<Longrightarrow> \<not> (\<exists>b. v = NegBoolView b)
    \<Longrightarrow> z3_tracked_ok (vm @ vm') v"
  by (cases v) auto

lemma set_update_single: "set (set_update xs [v]) = insert v (set xs)"
  by (auto simp: set_update_def)

lemma z3_solver_var_plain_inv:
  assumes "z3_inv s" "\<not> (\<exists>b. v = NegBoolView b)"
  shows "z3_inv (snd (z3_solver_var_plain s v))"
proof (cases "map_of (z3_varmap s) v")
  case (Some h)
  with assms show ?thesis by (simp add: z3_solver_var_plain_def)
next
  case None
  have tr: "\<And>w vm'. w \<in> set (z3_user_vars s) \<Longrightarrow> z3_tracked_ok (z3_varmap s @ vm') w"
  proof -
    fix w vm' assume "w \<in> set (z3_user_vars s)"
    with assms(1) have t: "z3_tracked_ok (z3_varmap s) w" by (simp add: z3_inv_def list_all_iff)
    then have "\<not> (\<exists>b. w = NegBoolView b)" by auto
    with t show "z3_tracked_ok (z3_varmap s @ vm') w" by (simp add: z3_tracked_ok_mono)
  qed
  show ?thesis
  proof (cases v)
    case (BoolVarImpl n)
    with None assms tr show ?thesis
      by (auto simp: z3_solver_var_plain_def z3_inv_def Let_def list_all_iff set_update_single)
  next
    case (IntVarImpl n lb ub)
    have mono: "\<And>p. z3_stored_ok (z3_assertions s) p \<Longrightarrow>
        z3_stored_ok (z3_assertions s @ [Z3Cmp GE (Z3Int n) (Z3Num lb), Z3Cmp LE (Z3Int n) (Z3Num ub)]) p"
      by (rule z3_stored_ok_mono[rotated]) auto
    from IntVarImpl None assms tr mono show ?thesis
      by (auto simp: z3_solver_var_plain_def z3_inv_def Let_def list_all_iff set_update_single z3_solver_add_def)
  next
    case (NegBoolView b)
    with assms show ?thesis by simp
  next
    case (NumVarImpl n)
    with None assms show ?thesis
      by (auto simp: z3_solver_var_plain_def z3_inv_def Let_def list_all_iff set_update_single)
  qed
qed

lemma z3_solver_var_inv: "z3_inv s \<Longrightarrow> z3_inv (snd (z3_solver_var s a))"
proof (cases a)
  case (Num n)
  assume "z3_inv s"
  with Num show ?thesis by simp
next
  case (Var v)
  assume inv: "z3_inv s"
  show ?thesis
  proof (cases v)
    case (NegBoolView b)
    from z3_solver_var_plain_inv[OF inv, of "BoolVarImpl b"] Var NegBoolView show ?thesis
      by (cases "z3_solver_var_plain s (BoolVarImpl b)") (auto split: sum.splits)
  qed (use Var inv z3_solver_var_plain_inv[OF inv, of v] in simp_all)
qed


lemma z3_inv_values: "z3_inv (s\<lparr>z3_var_value := vals\<rparr>) = z3_inv s"
  by (simp add: z3_inv_def)

lemma z3_cached:
  assumes "z3_inv s" "z3_tracked_ok (z3_varmap s) v" "\<not> (\<exists>n. v = NumVarImpl n)"
  shows "\<exists>h. map_of (z3_varmap s) v = Some h \<and> z3_solver_var s (Var v) = (Inr h, s)
             \<and> z3_stored_ok (z3_assertions s) (v, h)"
proof -
  from assms(2,3) obtain h where h: "map_of (z3_varmap s) v = Some h" by (cases v) auto
  then have "(v, h) \<in> set (z3_varmap s)" by (rule map_of_SomeD)
  with assms(1) have ok: "z3_stored_ok (z3_assertions s) (v, h)" by (simp add: z3_inv_def list_all_iff)
  from assms(2) h have "z3_solver_var s (Var v) = (Inr h, s)"
    by (cases v) (simp_all add: z3_solver_var_plain_def)
  with h ok show ?thesis by blast
qed

lemma z3_untracked_fails:
  assumes "z3_inv s"
  shows "fst (z3_solver_var s (Var (NumVarImpl n))) = Inl NotImplementedError"
proof -
  have "map_of (z3_varmap s) (NumVarImpl n) = None"
  proof (cases "map_of (z3_varmap s) (NumVarImpl n)")
    case (Some h)
    then have "(NumVarImpl n, h) \<in> set (z3_varmap s)" by (rule map_of_SomeD)
    with assms have "z3_stored_ok (z3_assertions s) (NumVarImpl n, h)"
      unfolding z3_inv_def list_all_iff by blast
    then show ?thesis by simp
  qed simp
  then show ?thesis by (simp add: z3_solver_var_plain_def Let_def)
qed

lemma z3_model_value_stored:
  "z3_stored_ok as (v, h) \<Longrightarrow> \<exists>x. z3_model_value r h = Inr x"
  by (cases v) auto

lemma z3_fill_values:
  assumes "z3_inv s" "list_all (z3_tracked_ok (z3_varmap s)) vs" "z3_fill s r vs = (Inr (), t)"
  shows "z3_assertions t = z3_assertions s \<and> z3_varmap t = z3_varmap s \<and> z3_user_vars t = z3_user_vars s
     \<and> (\<forall>v\<in>set vs. \<exists>h x. map_of (z3_varmap s) v = Some h \<and> z3_model_value r h = Inr x
                         \<and> map_of (z3_var_value t) v = Some x)
     \<and> (\<forall>v. v \<notin> set vs \<longrightarrow> map_of (z3_var_value t) v = map_of (z3_var_value s) v)"
  using assms
proof (induction vs arbitrary: s)
  case Nil
  then show ?case by simp
next
  case (Cons v vs)
  have tr: "z3_tracked_ok (z3_varmap s) v" and trs: "list_all (z3_tracked_ok (z3_varmap s)) vs"
    using Cons.prems(2) by simp_all
  have notnum: "\<not> (\<exists>n. v = NumVarImpl n)"
  proof
    assume "\<exists>n. v = NumVarImpl n"
    then obtain n where "v = NumVarImpl n" by blast
    with z3_untracked_fails[OF Cons.prems(1), of n] Cons.prems(3) show False
      by (cases "z3_solver_var s (Var (NumVarImpl n))") (auto simp del: z3_solver_var.simps split: sum.splits)
  qed
  from z3_cached[OF Cons.prems(1) tr notnum] obtain h where
    h: "map_of (z3_varmap s) v = Some h" and sv: "z3_solver_var s (Var v) = (Inr h, s)"
    and ok: "z3_stored_ok (z3_assertions s) (v, h)" by blast
  from z3_model_value_stored[OF ok] obtain x where x: "z3_model_value r h = Inr x" by blast
  let ?s1 = "s\<lparr>z3_var_value := AList.update v x (z3_var_value s)\<rparr>"
  from Cons.prems(3) sv x have rec: "z3_fill ?s1 r vs = (Inr (), t)"
    by (simp del: z3_solver_var.simps)
  have inv1: "z3_inv ?s1" using Cons.prems(1) by (simp add: z3_inv_values)
  have trs1: "list_all (z3_tracked_ok (z3_varmap ?s1)) vs" using trs by simp
  note ih = Cons.IH[OF inv1 trs1 rec]
  have here: "map_of (z3_var_value t) v = Some x"
  proof (cases "v \<in> set vs")
    case True
    with ih h x show ?thesis by auto
  next
    case False
    with ih have "map_of (z3_var_value t) v = map_of (z3_var_value ?s1) v" by blast
    then show ?thesis by (simp add: update_conv')
  qed
  from ih h x here show ?case by (auto simp: update_conv')
qed

lemma z3_fill_inv: "z3_inv s \<Longrightarrow> z3_inv (snd (z3_fill s r vs))"
proof (induction vs arbitrary: s)
  case Nil
  then show ?case by simp
next
  case (Cons v vs)
  obtain q t where q: "z3_solver_var s (Var v) = (q, t)" by (cases "z3_solver_var s (Var v)")
  from z3_solver_var_inv[OF Cons.prems, of "Var v"] q have it: "z3_inv t" by simp
  show ?case
  proof (cases q)
    case (Inl e)
    with q it show ?thesis by (simp del: z3_solver_var.simps)
  next
    case (Inr h)
    show ?thesis
    proof (cases "z3_model_value r h")
      case inl2: (Inl e)
      with q Inr it show ?thesis by (simp del: z3_solver_var.simps)
    next
      case inr2: (Inr x)
      from Cons.IH[of "t\<lparr>z3_var_value := AList.update v x (z3_var_value t)\<rparr>"] it q Inr inr2
      show ?thesis by (simp add: z3_inv_values del: z3_solver_var.simps)
    qed
  qed
qed

lemma z3_inv_other_fields:
  "z3_inv (s\<lparr>z3_exitstatus := st\<rparr>) = z3_inv s" "z3_inv (s\<lparr>z3_objective_value := ov\<rparr>) = z3_inv s"
  "z3_inv (z3_set k v s) = z3_inv s" "z3_inv (z3_set_all s kw) = z3_inv s" "z3_inv (z3_set_timeout s tlim) = z3_inv s"
  by (simp_all add: z3_inv_def z3_set_keeps)

lemma z3_solver_add_inv: "z3_inv s \<Longrightarrow> z3_inv (z3_solver_add e s)"
proof -
  assume "z3_inv s"
  moreover have "\<And>p. z3_stored_ok (z3_assertions s) p \<Longrightarrow> z3_stored_ok (z3_assertions s @ [e]) p"
    by (rule z3_stored_ok_mono[rotated]) auto
  ultimately show ?thesis by (auto simp: z3_inv_def z3_solver_add_def list_all_iff)
qed

lemma snd_fill_case:
  "snd (case p of (Inl e, s6) \<Rightarrow> (Inl e, s6) | (Inr un, s6) \<Rightarrow> (Inr b, s6)) = snd p"
  by (cases p; cases "fst p") auto

lemma z3_solve_inv: "z3_inv s \<Longrightarrow> z3_inv (snd (z3_solve sr s tlim asm kw r))"
proof -
  assume inv: "z3_inv s"
  let ?s2 = "z3_set_all (z3_set_timeout s tlim) kw"
  have i2: "\<And>st. z3_inv (?s2\<lparr>z3_exitstatus := NOT_RUN, z3_exitstatus := st, z3_objective_value := None\<rparr>)"
    using inv by (simp add: z3_inv_def z3_set_keeps)
  have i3: "z3_inv (?s2\<lparr>z3_exitstatus := NOT_RUN\<rparr>)"
    using inv by (simp add: z3_inv_def z3_set_keeps)
  have fill: "\<And>st. z3_inv (snd (z3_fill (?s2\<lparr>z3_exitstatus := NOT_RUN, z3_exitstatus := st, z3_objective_value := None\<rparr>) r
                 (z3_user_vars ?s2)))"
    by (rule z3_fill_inv[OF i2])
  show ?thesis
    using i2 i3 fill by (auto simp: z3_solve_def Let_def z3_inv_values snd_fill_case)
qed

lemma z3_reachable_inv: "z3_reachable s \<Longrightarrow> z3_inv s"
proof (induction rule: z3_reachable.induct)
  case z3_start
  then show ?case by (simp add: z3_inv_def zstate_init_def)
next
  case (z3_var s a)
  then show ?case by (simp add: z3_solver_var_inv)
next
  case (z3_post s e)
  then show ?case by (simp add: z3_solver_add_inv)
next
  case (z3_solved s solve_return time_limit assumptions kwargs r)
  then show ?case by (simp add: z3_solve_inv)
qed


text \<open>
  Claim C10. In every session that can arise, the first call of \<^verbatim>\<open>solver_var\<close> for an
  integer variable returns its constant and gives the two bounds to \<^verbatim>\<open>z3_solver.add\<close>;
  and when \<^verbatim>\<open>solve\<close> returns \<open>True\<close> for a model that satisfies what was given to Z3,
  every integer variable of \<^verbatim>\<open>user_vars\<close> gets an integer value within its bounds.
\<close>

theorem z3_reported_values_in_bounds:
  assumes "z3_reachable s"
  shows "(map_of (z3_varmap s) (IntVarImpl n lb ub) = None \<longrightarrow>
            fst (z3_solver_var s (Var (IntVarImpl n lb ub))) = Inr (Z3Int n)
            \<and> z3_assertions (snd (z3_solver_var s (Var (IntVarImpl n lb ub))))
                = z3_assertions s @ [Z3Cmp GE (Z3Int n) (Z3Num lb), Z3Cmp LE (Z3Int n) (Z3Num ub)])
     \<and> (\<forall>t. z3_solve sr s tlim asm kw r = (Inr True, t) \<and> z3_satisfies r s
              \<and> IntVarImpl m lo hi \<in> set (z3_user_vars t)
            \<longrightarrow> (\<exists>i. map_of (z3_var_value t) (IntVarImpl m lo hi) = Some (PyInt i) \<and> lo \<le> i \<and> i \<le> hi))"
proof (intro conjI impI allI)
  assume "map_of (z3_varmap s) (IntVarImpl n lb ub) = None"
  then show "fst (z3_solver_var s (Var (IntVarImpl n lb ub))) = Inr (Z3Int n)"
    and "z3_assertions (snd (z3_solver_var s (Var (IntVarImpl n lb ub))))
                = z3_assertions s @ [Z3Cmp GE (Z3Int n) (Z3Num lb), Z3Cmp LE (Z3Int n) (Z3Num ub)]"
    by (simp_all add: z3_solver_var_plain_def z3_solver_add_def Let_def)
next
  fix t
  assume a: "z3_solve sr s tlim asm kw r = (Inr True, t) \<and> z3_satisfies r s
              \<and> IntVarImpl m lo hi \<in> set (z3_user_vars t)"
  let ?v = "IntVarImpl m lo hi"
  have inv: "z3_inv s" using assms by (rule z3_reachable_inv)
  let ?s2 = "z3_set_all (z3_set_timeout s tlim) kw"
  let ?st = "if check_result r = ''sat'' then FEASIBLE else if check_result r = ''unsat'' then UNSATISFIABLE else UNKNOWN"
  let ?s5 = "?s2\<lparr>z3_exitstatus := NOT_RUN, z3_exitstatus := ?st, z3_objective_value := None\<rparr>"
  from a have fill: "z3_fill ?s5 r (z3_user_vars ?s5) = (Inr (), t)"
    by (auto simp: z3_solve_def Let_def split: if_splits prod.splits sum.splits)
  have inv5: "z3_inv ?s5" using inv by (simp add: z3_inv_def z3_set_keeps)
  then have tr5: "list_all (z3_tracked_ok (z3_varmap ?s5)) (z3_user_vars ?s5)" by (simp add: z3_inv_def)
  note fv = z3_fill_values[OF inv5 tr5 fill]
  from fv a have mem: "?v \<in> set (z3_user_vars ?s5)" by simp
  with fv obtain h x where h: "map_of (z3_varmap ?s5) ?v = Some h" and x: "z3_model_value r h = Inr x"
    and val: "map_of (z3_var_value t) ?v = Some x" by blast
  from h have "(?v, h) \<in> set (z3_varmap s)" by (auto simp: z3_set_keeps dest: map_of_SomeD)
  with inv have ok: "z3_stored_ok (z3_assertions s) (?v, h)"
    unfolding z3_inv_def list_all_iff by blast
  then have hh: "h = Z3Int m" and ge: "Z3Cmp GE (Z3Int m) (Z3Num lo) \<in> set (z3_assertions s)"
    and le: "Z3Cmp LE (Z3Int m) (Z3Num hi) \<in> set (z3_assertions s)" by simp_all
  from a have all: "\<forall>a\<in>set (z3_assertions s). z3_val r a \<noteq> 0"
    by (simp add: z3_satisfies_def list_all_iff)
  from bspec[OF all ge] bspec[OF all le] have "lo \<le> z3_ints r m" "z3_ints r m \<le> hi"
    by (auto split: if_splits)
  with x hh val show "\<exists>i. map_of (z3_var_value t) ?v = Some (PyInt i) \<and> lo \<le> i \<and> i \<le> hi" by auto
qed

lemma z3_declare_example:
  "z3_solver_var zstate_init (Var (IntVarImpl ''x'' 0 5)) = (Inr (Z3Int ''x''), zstate_declared)"
  by (simp add: z3_solver_var_plain_def z3_solver_add_def set_update_def zstate_init_def zstate_declared_def Let_def)

lemma z3_solve_example:
  "z3_solve solve_return_default zstate_declared None [] [] z3_reply_sat
     = (Inr True, zstate_declared\<lparr>z3_var_value := [(IntVarImpl ''x'' 0 5, PyInt 3)], z3_exitstatus := FEASIBLE\<rparr>)"
  by (simp add: z3_solve_def z3_set_timeout_def z3_set_all_def solve_return_default_def z3_solver_var_plain_def
      zstate_declared_def zstate_init_def z3_reply_sat_def Let_def)

text \<open>An instance: the session after the first \<^verbatim>\<open>solver_var\<close> of an integer variable with bounds 0 and 5, and a model that gives it 3.\<close>

theorem z3_reported_values_in_bounds_witness:
  "z3_reachable zstate_declared
   \<and> z3_satisfies z3_reply_sat zstate_declared
   \<and> z3_solve solve_return_default zstate_declared None [] [] z3_reply_sat
       = (Inr True, zstate_declared\<lparr>z3_var_value := [(IntVarImpl ''x'' 0 5, PyInt 3)], z3_exitstatus := FEASIBLE\<rparr>)
   \<and> IntVarImpl ''x'' 0 5 \<in> set (z3_user_vars zstate_declared)
   \<and> (\<exists>i. map_of (z3_var_value (zstate_declared\<lparr>z3_var_value := [(IntVarImpl ''x'' 0 5, PyInt 3)], z3_exitstatus := FEASIBLE\<rparr>))
              (IntVarImpl ''x'' 0 5) = Some (PyInt i) \<and> 0 \<le> i \<and> i \<le> 5)"
proof -
  have "z3_reachable (snd (z3_solver_var zstate_init (Var (IntVarImpl ''x'' 0 5))))"
    by (rule z3_var[OF z3_start])
  then have re: "z3_reachable zstate_declared" by (simp only: z3_declare_example snd_conv)
  have sat: "z3_satisfies z3_reply_sat zstate_declared"
    by (simp add: z3_satisfies_def zstate_declared_def z3_reply_sat_def)
  have mem: "IntVarImpl ''x'' 0 5 \<in> set (z3_user_vars (zstate_declared\<lparr>z3_var_value := [(IntVarImpl ''x'' 0 5, PyInt 3)], z3_exitstatus := FEASIBLE\<rparr>))"
    by (simp add: zstate_declared_def)
  from z3_reported_values_in_bounds[OF re, of "''x''" 0 5 solve_return_default None "[]" "[]" z3_reply_sat "''x''" 0 5]
    z3_solve_example sat mem
  have "\<exists>i. map_of (z3_var_value (zstate_declared\<lparr>z3_var_value := [(IntVarImpl ''x'' 0 5, PyInt 3)], z3_exitstatus := FEASIBLE\<rparr>))
              (IntVarImpl ''x'' 0 5) = Some (PyInt i) \<and> 0 \<le> i \<and> i \<le> 5"
    by blast
  with re sat z3_solve_example mem show ?thesis by (simp add: zstate_declared_def)
qed

subsection \<open>Handles of negated views, and the cache\<close>

lemma solver_var_plain_boolvar: "\<exists>h. fst (solver_var_plain s (BoolVarImpl b)) = Inr h"
  by (simp add: solver_var_plain_def Let_def split: option.splits)

lemma solver_var_negated_view_raises: "fst (solver_var s (Var (NegBoolView b))) = Inl AttributeError"
  using solver_var_plain_boolvar[of s b]
  by (cases "solver_var_plain s (BoolVarImpl b)") (auto split: sum.splits)

lemma solver_var_plain_cached:
  "solver_var_plain s v = (Inr h, s') \<Longrightarrow> solver_var_plain s' v = (Inr h, s')"
  by (auto simp: solver_var_plain_def Let_def xct_def map_add_def
      split: option.splits cpm_var.splits if_splits)

lemma solver_var_cached: "solver_var s a = (Inr h, s') \<Longrightarrow> solver_var s' a = (Inr h, s')"
proof (cases a)
  case (Num n)
  assume "solver_var s a = (Inr h, s')"
  with Num show ?thesis by simp
next
  case (Var v)
  assume "solver_var s a = (Inr h, s')"
  with Var show ?thesis
    by (cases v) (auto dest: solver_var_plain_cached split: prod.splits sum.splits)
qed

lemma z3_solver_var_plain_cached:
  "z3_solver_var_plain s v = (Inr h, s') \<Longrightarrow> z3_solver_var_plain s' v = (Inr h, s')"
  by (auto simp: z3_solver_var_plain_def Let_def z3_solver_add_def map_add_def
      split: option.splits cpm_var.splits if_splits)

lemma z3_solver_var_cached: "z3_solver_var s a = (Inr h, s') \<Longrightarrow> z3_solver_var s' a = (Inr h, s')"
proof (cases a)
  case (Num n)
  assume "z3_solver_var s a = (Inr h, s')"
  with Num show ?thesis by simp
next
  case (Var v)
  assume "z3_solver_var s a = (Inr h, s')"
  with Var show ?thesis
    by (cases v) (auto dest: z3_solver_var_plain_cached split: prod.splits sum.splits)
qed

lemma z3_solver_var_negated_view:
  "\<exists>h. z3_solver_var s (Var (BoolVarImpl b)) = (Inr h, snd (z3_solver_var s (Var (BoolVarImpl b))))
       \<and> z3_solver_var s (Var (NegBoolView b)) = (Inr (Z3Not h), snd (z3_solver_var s (Var (BoolVarImpl b))))"
  by (auto simp: z3_solver_var_plain_def Let_def split: option.splits)

text \<open>
  Claim C3, on the interface to Exact: the handle of a negated view. On a new session,
  \<^verbatim>\<open>solver_var\<close> of the negated view of the Boolean variable \<open>a\<close> declares \<open>a\<close>, whose
  handle is the string \<^verbatim>\<open>'a'\<close>, and then raises \<^verbatim>\<open>AttributeError\<close> on \<^verbatim>\<open>.Not()\<close>; it does
  not return the negation of the handle of \<open>a\<close>.
\<close>

theorem exact_negated_view_raises:
  "solver_var xstate_init (Var (NegBoolView ''a''))
     = (Inl AttributeError,
        xstate_init\<lparr>xct_calls := [AddVariable ''a'' (XInt 0) (XInt 1)], varmap := [(BoolVarImpl ''a'', ''a'')]\<rparr>)"
  by (simp add: solver_var_plain_def xct_def xstate_init_def Let_def)

subsection \<open>The cache maps every variable to its name, throughout a session\<close>

lemma varmap_ok_xct: "varmap_ok (xct c s) = varmap_ok s"
  by (simp add: varmap_ok_def xct_def)

lemma solver_var_keeps_ok: "solver_var s a = (r, s') \<Longrightarrow> varmap_ok s \<Longrightarrow> varmap_ok s'"
  using solver_var_ok[of s a r s'] by simp

lemma sum_loop_keeps_ok: "sum_loop s xs cs vs r = (res, s') \<Longrightarrow> varmap_ok s \<Longrightarrow> varmap_ok s'"
proof (induction s xs cs vs r rule: sum_loop.induct)
  case (3 s v xs cs vs r)
  obtain q t where q: "solver_var s (Var v) = (q, t)" by (cases "solver_var s (Var v)")
  from solver_var_keeps_ok[OF q "3.prems"(2)] have ok: "varmap_ok t" .
  show ?case
  proof (cases q)
    case (Inl e)
    with q "3.prems"(1) ok show ?thesis by (simp del: solver_var.simps)
  next
    case (Inr h)
    with q "3.prems"(1) "3.IH"[OF q[symmetric] Inr _ ok] show ?thesis by (simp del: solver_var.simps)
  qed
qed simp_all

lemma wsum_loop_keeps_ok: "wsum_loop s xs cs vs r = (res, s') \<Longrightarrow> varmap_ok s \<Longrightarrow> varmap_ok s'"
proof (induction s xs cs vs r rule: wsum_loop.induct)
  case (3 s c v xs cs vs r)
  obtain q t where q: "solver_var s (Var v) = (q, t)" by (cases "solver_var s (Var v)")
  from solver_var_keeps_ok[OF q "3.prems"(2)] have ok: "varmap_ok t" .
  show ?case
  proof (cases q)
    case (Inl e)
    with q "3.prems"(1) ok show ?thesis by (simp del: solver_var.simps)
  next
    case (Inr h)
    with q "3.prems"(1) "3.IH"[OF q[symmetric] Inr _ ok] show ?thesis by (simp del: solver_var.simps)
  qed
qed simp_all

lemma numexpr_rhs_keeps_ok: "numexpr_rhs s e = (res, s') \<Longrightarrow> varmap_ok s \<Longrightarrow> varmap_ok s'"
proof (induction s e rule: numexpr_rhs.induct)
  case (2 s v)
  obtain q t where q: "solver_var s (Var v) = (q, t)" by (cases "solver_var s (Var v)")
  from solver_var_keeps_ok[OF q "2.prems"(2)] q "2.prems"(1) show ?case
    by (cases q) (auto simp del: solver_var.simps)
qed auto

lemma numexpr_lhs_keeps_ok: "numexpr_lhs s e cs vs r = (res, s') \<Longrightarrow> varmap_ok s \<Longrightarrow> varmap_ok s'"
proof (induction s e cs vs r rule: numexpr_lhs.induct)
  case (1 s n cs vs r)
  then show ?case by auto
next
  case (2 s v cs vs r)
  obtain q t where q: "solver_var s (Var v) = (q, t)" by (cases "solver_var s (Var v)")
  from solver_var_keeps_ok[OF q "2.prems"(2)] q "2.prems"(1) show ?case
    by (cases q) (auto simp del: solver_var.simps)
next
  case (3 s args cs vs r)
  then show ?case by (auto dest: sum_loop_keeps_ok)
next
  case (4 s ws args cs vs r)
  then show ?case by (auto dest: wsum_loop_keeps_ok)
next
  case (5 s args cs vs r)
  show ?case
  proof (cases "\<exists>a b. args = [a, b]")
    case False
    with "5.prems" show ?thesis by (auto split: list.splits)
  next
    case True
    then obtain a b where ab: "args = [a, b]" by blast
    obtain q t where q: "solver_var s a = (q, t)" by (cases "solver_var s a")
    from solver_var_keeps_ok[OF q "5.prems"(2)] have ok: "varmap_ok t" .
    obtain q2 t2 where q2: "solver_var t b = (q2, t2)" by (cases "solver_var t b")
    from solver_var_keeps_ok[OF q2 ok] have ok2: "varmap_ok t2" .
    from "5.prems"(1) ab q q2 ok ok2 show ?thesis
      by (cases q; cases q2) (auto simp del: solver_var.simps)
  qed
next
  case (6 s nm cs vs r)
  then show ?case by auto
qed

lemma make_numexpr_keeps_ok: "make_numexpr s lhs rhs = (res, s') \<Longrightarrow> varmap_ok s \<Longrightarrow> varmap_ok s'"
  by (auto simp: make_numexpr_def split: prod.splits sum.splits dest: numexpr_rhs_keeps_ok numexpr_lhs_keeps_ok)

lemma posting_keeps_ok:
  "varmap_ok (snd (add_xct_constr s (py_nums cs) vs ul (PyNum lb) uu (PyNum ub))) = varmap_ok s"
  "varmap_ok (snd (add_xct_reif_right s h (py_nums cs) vs (PyNum b))) = varmap_ok s"
  "varmap_ok (snd (add_xct_reif_left s h (py_nums cs) vs (PyNum b))) = varmap_ok s"
  by (simp_all add: add_xct_constr_eq add_xct_reif_right_eq add_xct_reif_left_eq Let_def varmap_ok_xct)

lemma indicator_emit_keeps_ok: "varmap_ok (snd (indicator_emit s h b opr cs vs r)) = varmap_ok s"
  by (cases opr; cases b; cases "cs = []")
     (simp_all add: indicator_emit_def add_xct_reif_right_eq add_xct_reif_left_eq Let_def varmap_ok_xct)

lemma indicator_cond_keeps_ok: "indicator_cond s c = (res, s') \<Longrightarrow> varmap_ok s \<Longrightarrow> varmap_ok s'"
proof (cases c)
  case (Atom a)
  assume p: "indicator_cond s c = (res, s')" "varmap_ok s"
  show ?thesis
  proof (cases "\<exists>b. a = Var (NegBoolView b)")
    case True
    then obtain b where b: "a = Var (NegBoolView b)" by blast
    obtain q t where q: "solver_var s (Var (BoolVarImpl b)) = (q, t)" by (cases "solver_var s (Var (BoolVarImpl b))")
    from solver_var_keeps_ok[OF q p(2)] q p(1) Atom b show ?thesis
      by (cases q) (auto simp del: solver_var.simps)
  next
    case False
    obtain q t where q: "solver_var s a = (q, t)" by (cases "solver_var s a")
    from solver_var_keeps_ok[OF q p(2)] q p(1) Atom False show ?thesis
      by (cases q) (auto simp: indicator_cond_plain simp del: solver_var.simps)
  qed
qed auto

lemma post_constraint_keeps_ok:
  assumes "varmap_ok s"
  shows "varmap_ok (snd (post_constraint s c))"
proof (cases c)
  case (Comparison opr lhs rhs)
  obtain q t where q: "make_numexpr s lhs rhs = (q, t)" by (cases "make_numexpr s lhs rhs")
  from make_numexpr_keeps_ok[OF q assms] have ok: "varmap_ok t" .
  show ?thesis
  proof (cases q)
    case (Inl e)
    with Comparison q ok show ?thesis by simp
  next
    case (Inr tr)
    obtain cs vs r where "tr = (cs, vs, r)" by (cases tr)
    with Comparison q Inr ok show ?thesis by (cases opr) (simp_all add: posting_keeps_ok)
  qed
next
  case (Implication cond sub)
  show ?thesis
  proof (cases sub)
    case inner: (Implication c' e')
    with Implication assms show ?thesis by simp
  next
    case cmp: (Comparison opr lhs rhs)
    obtain q t where q: "make_numexpr s lhs rhs = (q, t)" by (cases "make_numexpr s lhs rhs")
    from make_numexpr_keeps_ok[OF q assms] have ok: "varmap_ok t" .
    show ?thesis
    proof (cases q)
      case (Inl e)
      with Implication cmp q ok assms show ?thesis by (simp split: option.splits)
    next
      case (Inr tr)
      obtain cs vs r where tr: "tr = (cs, vs, r)" by (cases tr)
      obtain q2 t2 where q2: "indicator_cond t cond = (q2, t2)" by (cases "indicator_cond t cond")
      from indicator_cond_keeps_ok[OF q2 ok] have ok2: "varmap_ok t2" .
      show ?thesis
      proof (cases q2)
        case inl2: (Inl e)
        with Implication cmp q Inr tr q2 ok2 assms show ?thesis by (simp split: option.splits)
      next
        case inr2: (Inr hb)
        obtain h b where "hb = (h, b)" by (cases hb)
        with Implication cmp q Inr tr q2 inr2 ok2 assms show ?thesis
          by (simp add: indicator_emit_keeps_ok split: option.splits)
      qed
    qed
  qed
qed

lemma post_all_keeps_ok: "varmap_ok s \<Longrightarrow> varmap_ok (snd (post_all s cs))"
proof (induction s cs rule: post_all.induct)
  case (1 s)
  then show ?case by simp
next
  case (2 s con cons)
  obtain q t where q: "post_constraint s con = (q, t)" by (cases "post_constraint s con")
  with post_constraint_keeps_ok[OF "2.prems", of con] have ok: "varmap_ok t" by simp
  show ?case
  proof (cases q)
    case (Inl e)
    with q ok show ?thesis by simp
  next
    case (Inr u)
    with q "2.IH"[OF q[symmetric] Inr ok] show ?thesis by simp
  qed
qed

lemma add_cons_keeps_ok: "varmap_ok s \<Longrightarrow> varmap_ok (snd (add_cons s vars cs))"
  using post_all_keeps_ok[of "s\<lparr>user_vars := set_update (user_vars s) vars\<rparr>" cs]
  by (simp add: add_cons_def varmap_ok_def)

lemma objective_keeps_ok:
  assumes "varmap_ok s"
  shows "varmap_ok (snd (objective s e ov cv fc m))"
proof (cases "has_objective s")
  case True
  with assms show ?thesis by (simp add: objective_def)
next
  case False
  let ?s1 = "s\<lparr>has_objective := True, objective_minimize := m\<rparr>"
  have ok1: "varmap_ok ?s1" using assms by (simp add: varmap_ok_def)
  obtain q t2 where q: "add_cons ?s1 cv fc = (q, t2)" by (cases "add_cons ?s1 cv fc")
  with add_cons_keeps_ok[OF ok1, of cv fc] have ok2: "varmap_ok t2" by simp
  show ?thesis
  proof (cases q)
    case (Inl e')
    with False q ok2 show ?thesis by (simp add: objective_def Let_def)
  next
    case (Inr u)
    let ?t3 = "t2\<lparr>user_vars := set_update (user_vars t2) ov\<rparr>"
    have ok3: "varmap_ok ?t3" using ok2 by (simp add: varmap_ok_def)
    obtain q2 t4 where q2: "make_numexpr ?t3 e (Atom (Num 0)) = (q2, t4)" by (cases "make_numexpr ?t3 e (Atom (Num 0))")
    from make_numexpr_keeps_ok[OF q2 ok3] have ok4: "varmap_ok t4" .
    show ?thesis
    proof (cases q2)
      case inl2: (Inl e')
      with False q Inr q2 ok4 show ?thesis by (simp add: objective_def Let_def)
    next
      case inr2: (Inr tr)
      obtain cs vs r where "tr = (cs, vs, r)" by (cases tr)
      with False q Inr q2 inr2 ok4 show ?thesis by (simp add: objective_def Let_def varmap_ok_xct)
    qed
  qed
qed

lemma solver_vars_keeps_ok: "solver_vars s vs = (res, s') \<Longrightarrow> varmap_ok s \<Longrightarrow> varmap_ok s'"
proof (induction s vs arbitrary: res s' rule: solver_vars.induct)
  case (1 s)
  then show ?case by simp
next
  case (2 s v vs)
  obtain q t where q: "solver_var s (Var v) = (q, t)" by (cases "solver_var s (Var v)")
  from solver_var_keeps_ok[OF q "2.prems"(2)] have ok: "varmap_ok t" .
  show ?case
  proof (cases q)
    case (Inl e)
    with q "2.prems"(1) ok show ?thesis by (simp del: solver_var.simps)
  next
    case (Inr h)
    obtain q2 t2 where q2: "solver_vars t vs = (q2, t2)" by (cases "solver_vars t vs")
    from "2.IH"[OF q[symmetric] Inr q2 ok] have "varmap_ok t2" .
    with q Inr q2 "2.prems"(1) show ?thesis by (cases q2) (auto simp del: solver_var.simps)
  qed
qed

lemma getSolAndObj_keeps_ok:
  assumes "varmap_ok s"
  shows "varmap_ok (snd (getSolAndObj s r))"
proof -
  obtain q t where q: "solver_vars s (user_vars s) = (q, t)" by (cases "solver_vars s (user_vars s)")
  from solver_vars_keeps_ok[OF q assms] have "varmap_ok t" .
  with assms q show ?thesis
    by (cases q) (auto simp: getSolAndObj_eq varmap_ok_def)
qed

lemma solve_keeps_ok:
  assumes "varmap_ok s"
  shows "varmap_ok (snd (solve s tlim asm kw r))"
proof -
  let ?s3 = "set_options (set_timeout (init_if_needed s) tlim) kw"
  have vm: "varmap ?s3 = varmap s"
  proof -
    have a: "\<And>t. varmap (set_options t kw) = varmap t"
    proof -
      fix t show "varmap (set_options t kw) = varmap t"
        unfolding set_options_def by (induction kw arbitrary: t) (auto simp: xct_def)
    qed
    show ?thesis
      by (simp add: a set_timeout_def init_if_needed_def xct_def split: option.splits)
  qed
  then have ok3: "varmap_ok ?s3" using assms by (simp add: varmap_ok_def)
  have g: "\<And>st. varmap_ok (snd (getSolAndObj ((xct RunFull ?s3)\<lparr>exitstatus := NOT_RUN, exitstatus := st\<rparr>) r))"
    by (rule getSolAndObj_keeps_ok) (use ok3 in \<open>simp add: varmap_ok_def xct_def\<close>)
  show ?thesis
    using ok3 g by (auto simp: solve_def Let_def varmap_ok_def xct_def)
qed

lemma varmap_ok_reachable:
  "varmap_ok xstate_init"
  "varmap_ok s \<Longrightarrow> varmap_ok (snd (solver_var s a))"
  "varmap_ok s \<Longrightarrow> varmap_ok (snd (post_constraint s c))"
  "varmap_ok s \<Longrightarrow> varmap_ok (snd (add_cons s vars cs))"
  "varmap_ok s \<Longrightarrow> varmap_ok (snd (objective s e ov cv fc m))"
  "varmap_ok s \<Longrightarrow> varmap_ok (snd (solve s tlim asm kw r))"
proof -
  show "varmap_ok xstate_init" by (simp add: varmap_ok_def xstate_init_def)
  show "varmap_ok s \<Longrightarrow> varmap_ok (snd (solver_var s a))"
    using solver_var_keeps_ok[of s a "fst (solver_var s a)" "snd (solver_var s a)"] by simp
  show "varmap_ok s \<Longrightarrow> varmap_ok (snd (post_constraint s c))" by (rule post_constraint_keeps_ok)
  show "varmap_ok s \<Longrightarrow> varmap_ok (snd (add_cons s vars cs))" by (rule add_cons_keeps_ok)
  show "varmap_ok s \<Longrightarrow> varmap_ok (snd (objective s e ov cv fc m))" by (rule objective_keeps_ok)
  show "varmap_ok s \<Longrightarrow> varmap_ok (snd (solve s tlim asm kw r))" by (rule solve_keeps_ok)
qed

end
